(* ===== verification/LCG_Prelude.thy ===== *)
theory LCG_Prelude
  imports Main "HOL-Library.Stream"
begin

text \<open>
  Shared vocabulary of the development: the Python errors the module can raise, the result
  type of a Python call that may raise, Python's integer remainder operator, keyword
  arguments with defaults, and the range that Python's \<open>%\<close> guarantees. The generic
  lemmas on these are collected in \<open>py_simps\<close>, so that the component theories can
  use them through \<open>simp add: py_simps\<close>.
\<close>

named_theorems py_simps "evaluation rules for the Python primitives of the model"

section \<open>Python errors and results\<close>

text \<open>
  \<open>ZeroDivisionError\<close> is raised by \<open>%\<close> with a zero right operand; \<open>TypeError\<close>
  by \<open>send\<close> of a value other than \<open>None\<close> to a generator that has not started;
  \<open>StopIteration\<close> by resuming a generator that has finished; \<open>NameError\<close> by a
  client program that uses a variable it has not bound, and \<open>UnboundLocalError\<close> (a
  subclass of it) by a function body that reads a local before assigning it;
  \<open>AttributeError\<close> by a client program that calls a method its object does not
  have, such as \<open>send\<close> on an \<open>Aleat\<close> instance.
\<close>

datatype py_error = ZeroDivisionError | TypeError | StopIteration | NameError
  | UnboundLocalError | AttributeError

type_synonym 'a py_result = "py_error + 'a"

section \<open>Python's remainder on integers\<close>

text \<open>
  Python's \<open>x % y\<close> on \<open>int\<close> rounds the quotient towards minus infinity, as HOL's
  \<open>mod\<close> on \<open>int\<close> does; the result has the sign of \<open>y\<close>. Where HOL returns
  \<open>x\<close> for \<open>y = 0\<close>, Python raises \<open>ZeroDivisionError\<close>.
\<close>

definition py_mod :: "int \<Rightarrow> int \<Rightarrow> int py_result" where
  "py_mod x y = (if y = 0 then Inl ZeroDivisionError else Inr (x mod y))"

text \<open>The values \<open>x % y\<close> can take: \<open>[0, y)\<close> for positive \<open>y\<close>, \<open>(y, 0]\<close> for negative \<open>y\<close>.\<close>

definition in_py_range :: "int \<Rightarrow> int \<Rightarrow> bool" where
  "in_py_range y v = (if 0 < y then 0 \<le> v \<and> v < y else y < v \<and> v \<le> 0)"

section \<open>Keyword arguments with defaults\<close>

text \<open>
  An omitted keyword argument is \<open>None\<close> and takes the default of the signature; a given
  one is \<open>Some v\<close>.
\<close>

definition kwarg :: "'a option \<Rightarrow> 'a \<Rightarrow> 'a" where
  "kwarg arg dflt = (case arg of None \<Rightarrow> dflt | Some v \<Rightarrow> v)"

section \<open>Propagating an exception through a sequence of calls\<close>

text \<open>
  \<open>py_cons v r\<close> is the outcome of a statement that produced \<open>v\<close> followed by the rest
  of a run with outcome \<open>r\<close>: an exception of the rest propagates, otherwise \<open>v\<close> is
  prepended to the values the rest produced. The state is the one the rest ends in.
\<close>

definition py_cons :: "'a \<Rightarrow> 'a list py_result \<times> 's \<Rightarrow> 'a list py_result \<times> 's" where
  "py_cons v r = (case r of (Inl e, s) \<Rightarrow> (Inl e, s) | (Inr vs, s) \<Rightarrow> (Inr (v # vs), s))"

text \<open>\<open>py_append vs r\<close>: the same for a run that produced the values \<open>vs\<close> first.\<close>

definition py_append :: "'a list \<Rightarrow> 'a list py_result \<times> 's \<Rightarrow> 'a list py_result \<times> 's" where
  "py_append vs r = (case r of (Inl e, s) \<Rightarrow> (Inl e, s) | (Inr ws, s) \<Rightarrow> (Inr (vs @ ws), s))"

text \<open>
  \<open>py_then r k\<close>: a run with outcome \<open>r\<close> followed by the run \<open>k\<close> from the state it
  ends in, unless it raised.
\<close>

definition py_then :: "'a list py_result \<times> 's \<Rightarrow> ('s \<Rightarrow> 'a list py_result \<times> 's) \<Rightarrow> 'a list py_result \<times> 's" where
  "py_then r k = (case r of (Inl e, s) \<Rightarrow> (Inl e, s) | (Inr vs, s) \<Rightarrow> py_append vs (k s))"

section \<open>Generic lemmas\<close>

lemma py_then_Inl [py_simps]: "py_then (Inl e, s) k = (Inl e, s)"
  and py_then_Inr [py_simps]: "py_then (Inr vs, s) k = py_append vs (k s)"
  by (simp_all add: py_then_def)

lemma py_cons_py_then [py_simps]: "py_cons v (py_then r k) = py_then (py_cons v r) k"
  by (simp add: py_cons_def py_then_def py_append_def split: prod.split sum.split)

lemma py_append_Inr [py_simps]: "py_append vs (Inr ws, s) = (Inr (vs @ ws), s)"
  and py_append_Inl [py_simps]: "py_append vs (Inl e, s) = (Inl e, s)"
  and snd_py_append [py_simps]: "snd (py_append vs r) = snd r"
  by (simp_all add: py_append_def split: prod.split sum.split)

lemma fst_py_append [py_simps]: "fst (py_append vs r) = map_sum id ((@) vs) (fst r)"
  by (simp add: py_append_def split: prod.split sum.split)

lemma py_append_Nil [py_simps]: "py_append [] r = r"
  by (simp add: py_append_def split: prod.split sum.split)

lemma fst_py_cons [py_simps]: "fst (py_cons v r) = map_sum id ((#) v) (fst r)"
  and snd_py_cons [py_simps]: "snd (py_cons v r) = snd r"
  by (simp_all add: py_cons_def split: prod.split sum.split)

lemma py_cons_py_append [py_simps]: "py_cons v (py_append vs r) = py_append (v # vs) r"
  by (simp add: py_cons_def py_append_def split: prod.split sum.split)

lemma py_append_Inr_iff:
  "py_append vs r = (Inr ws, s) \<longleftrightarrow> (\<exists>us. r = (Inr us, s) \<and> ws = vs @ us)"
  by (auto simp: py_append_def split: prod.split sum.split)

lemma py_cons_Inr_iff:
  "py_cons v r = (Inr ws, s) \<longleftrightarrow> (\<exists>us. r = (Inr us, s) \<and> ws = v # us)"
  by (auto simp: py_cons_def split: prod.split sum.split)

lemma apsnd_py_cons [py_simps]: "apsnd f (py_cons v r) = py_cons v (apsnd f r)"
  by (simp add: py_cons_def split: prod.split sum.split)

lemma py_cons_Inr [py_simps]: "py_cons v (Inr vs, s) = (Inr (v # vs), s)"
  and py_cons_Inl [py_simps]: "py_cons v (Inl e, s) = (Inl e, s)"
  by (simp_all add: py_cons_def)


lemma py_mod_zero [py_simps]: "py_mod x 0 = Inl ZeroDivisionError"
  by (simp add: py_mod_def)

lemma py_mod_nonzero [py_simps]: "y \<noteq> 0 \<Longrightarrow> py_mod x y = Inr (x mod y)"
  by (simp add: py_mod_def)

lemma py_mod_Inr_iff: "py_mod x y = Inr v \<longleftrightarrow> y \<noteq> 0 \<and> v = x mod y"
  by (auto simp: py_mod_def)

lemma py_mod_Inl_iff: "py_mod x y = Inl e \<longleftrightarrow> y = 0 \<and> e = ZeroDivisionError"
  by (auto simp: py_mod_def)

lemma mod_in_py_range: "y \<noteq> 0 \<Longrightarrow> in_py_range y (x mod y)"
  by (auto simp: in_py_range_def neg_mod_bound neg_mod_sign)

lemma in_py_range_pos [py_simps]: "0 < y \<Longrightarrow> in_py_range y v \<longleftrightarrow> 0 \<le> v \<and> v < y"
  by (simp add: in_py_range_def)

lemma in_py_range_neg [py_simps]: "y < 0 \<Longrightarrow> in_py_range y v \<longleftrightarrow> y < v \<and> v \<le> 0"
  by (simp add: in_py_range_def)

lemma in_py_range_nonzero: "in_py_range y v \<Longrightarrow> y \<noteq> 0"
  by (auto simp: in_py_range_def split: if_splits)

lemma mod_in_py_range_idem: "in_py_range y v \<Longrightarrow> v mod y = v"
  by (auto simp: in_py_range_def split: if_splits)

lemma kwarg_None [simp]: "kwarg None d = d"
  and kwarg_Some [simp]: "kwarg (Some v) d = v"
  by (simp_all add: kwarg_def)

end
