(* ===== verification/LCG_Engine.thy ===== *)
theory LCG_Engine
  imports LCG_Prelude
begin

text \<open>
  The recurrence both interfaces of \<open>src/aleatorios.py\<close> evaluate, the expression
  \<open>(a * x + c) % m\<close> (line 56 in \<open>Aleat.__next__\<close>, line 99 in \<open>aleat\<close>), and
  the abstract specification of the sequence it produces: the stream of emitted values
  \<open>lcg_orbit m a c x0\<close>, whose element \<open>n\<close> is the value of the \<open>n+1\<close>-st pull. The
  lemmas show the range of every emitted value and that the stream is eventually periodic
  with a period of at most \<open>m\<close>.
\<close>

section \<open>The recurrence\<close>

text \<open>One evaluation of \<open>(a * x + c) % m\<close>, raising as Python does when \<open>m = 0\<close>.\<close>

definition lcg :: "int \<Rightarrow> int \<Rightarrow> int \<Rightarrow> int \<Rightarrow> int py_result" where
  "lcg m a c x = py_mod (a * x + c) m"

text \<open>The same recurrence as a total function, for the abstract specification.\<close>

definition lcg_fun :: "int \<Rightarrow> int \<Rightarrow> int \<Rightarrow> int \<Rightarrow> int" where
  "lcg_fun m a c x = (a * x + c) mod m"

text \<open>
  The emitted sequence: \<open>x1, x2, \<dots>\<close> with \<open>x1 = f x0\<close> and \<open>x(n+1) = f xn\<close>. The seed
  itself is not emitted.
\<close>

definition lcg_orbit :: "int \<Rightarrow> int \<Rightarrow> int \<Rightarrow> int \<Rightarrow> int stream" where
  "lcg_orbit m a c x0 = siterate (lcg_fun m a c) (lcg_fun m a c x0)"

section \<open>Lemmas on one step\<close>

lemma lcg_nonzero [py_simps]: "m \<noteq> 0 \<Longrightarrow> lcg m a c x = Inr (lcg_fun m a c x)"
  by (simp add: lcg_def lcg_fun_def py_mod_nonzero)

lemma lcg_zero [py_simps]: "lcg 0 a c x = Inl ZeroDivisionError"
  by (simp add: lcg_def py_mod_zero)

lemma lcg_Inr_iff: "lcg m a c x = Inr v \<longleftrightarrow> m \<noteq> 0 \<and> v = lcg_fun m a c x"
  by (auto simp: lcg_def lcg_fun_def py_mod_Inr_iff)

lemma lcg_fun_in_py_range [py_simps]: "m \<noteq> 0 \<Longrightarrow> in_py_range m (lcg_fun m a c x)"
  by (simp add: lcg_fun_def mod_in_py_range)

lemma lcg_fun_mod_left: "lcg_fun m a c (x mod m) = lcg_fun m a c x"
  unfolding lcg_fun_def by (metis mod_add_left_eq mod_mult_right_eq)

section \<open>Lemmas on the stream\<close>

lemma lcg_orbit_snth: "lcg_orbit m a c x0 !! n = (lcg_fun m a c ^^ Suc n) x0"
  by (simp add: lcg_orbit_def funpow_swap1)

lemma lcg_orbit_snth_Suc: "lcg_orbit m a c x0 !! Suc n = lcg_fun m a c (lcg_orbit m a c x0 !! n)"
  by (simp only: lcg_orbit_snth funpow.simps o_apply)

lemma lcg_orbit_stl: "stl (lcg_orbit m a c x0) = lcg_orbit m a c (lcg_fun m a c x0)"
  by (simp add: lcg_orbit_def)

lemma lcg_orbit_shd: "shd (lcg_orbit m a c x0) = lcg_fun m a c x0"
  by (simp add: lcg_orbit_def)

text \<open>Restarting the recurrence from an emitted value gives the rest of the stream.\<close>

lemma lcg_orbit_restart: "lcg_orbit m a c (lcg_orbit m a c x0 !! k) = sdrop (Suc k) (lcg_orbit m a c x0)"
  by (simp add: lcg_orbit_snth lcg_orbit_def sdrop_siterate funpow_swap1 funpow_Suc_right
      del: funpow.simps)

lemma lcg_orbit_in_py_range: "m \<noteq> 0 \<Longrightarrow> in_py_range m (lcg_orbit m a c x0 !! n)"
  by (simp add: lcg_orbit_snth lcg_fun_in_py_range)

text \<open>
  Once two elements of the stream agree, the stream repeats from there on: the
  recurrence is a function of the previous value alone.
\<close>

lemma lcg_orbit_repeat:
  assumes "lcg_orbit m a c x0 !! i = lcg_orbit m a c x0 !! j"
  shows "lcg_orbit m a c x0 !! (i + k) = lcg_orbit m a c x0 !! (j + k)"
  using assms by (induction k) (simp_all add: lcg_orbit_snth_Suc del: snth.simps)

lemma lcg_orbit_periodic_from:
  assumes "lcg_orbit m a c x0 !! i = lcg_orbit m a c x0 !! (i + p)" and "i \<le> n"
  shows "lcg_orbit m a c x0 !! (n + p) = lcg_orbit m a c x0 !! n"
proof -
  from assms(2) obtain k where "n = i + k" by (metis le_add_diff_inverse)
  with lcg_orbit_repeat [OF assms(1), of k] show ?thesis
    by (simp add: ac_simps)
qed

lemma lcg_orbit_period_from_0:
  assumes "lcg_orbit m a c x0 !! p = lcg_orbit m a c x0 !! 0"
  shows "lcg_orbit m a c x0 !! (n + p) = lcg_orbit m a c x0 !! n"
  using lcg_orbit_periodic_from [of m a c x0 0 p n] assms by simp

text \<open>
  The exact period of a concrete stream, from a computed prefix \<open>L\<close> of \<open>p + 1\<close>
  values: the first \<open>p\<close> are distinct and value \<open>p\<close> is value \<open>0\<close> again.
\<close>

lemma lcg_orbit_exact_period:
  assumes L0: "stake k (lcg_orbit m a c x0) = L" and k: "k = Suc p"
    and per: "L ! p = L ! 0" and dist: "distinct (take p L)"
  shows "distinct (stake p (lcg_orbit m a c x0)) \<and>
         (\<forall>n. lcg_orbit m a c x0 !! (n + p) = lcg_orbit m a c x0 !! n)"
proof
  from L0 k have L: "stake (Suc p) (lcg_orbit m a c x0) = L" by simp
  have "stake p (lcg_orbit m a c x0) = take p (stake (Suc p) (lcg_orbit m a c x0))"
    by (simp add: take_stake del: stake.simps)
  then have "stake p (lcg_orbit m a c x0) = take p L"
    by (simp only: L)
  with dist show "distinct (stake p (lcg_orbit m a c x0))" by simp
  have "lcg_orbit m a c x0 !! p = lcg_orbit m a c x0 !! 0"
    using per stake_nth [of p "Suc p" "lcg_orbit m a c x0"] stake_nth [of 0 "Suc p" "lcg_orbit m a c x0"]
    by (simp only: L)
  then show "\<forall>n. lcg_orbit m a c x0 !! (n + p) = lcg_orbit m a c x0 !! n"
    by (blast intro: lcg_orbit_period_from_0)
qed

text \<open>
  Pigeonhole: for \<open>0 < m\<close> the first \<open>m + 1\<close> emitted values lie in the \<open>m\<close> values
  \<open>{0..<m}\<close>, so two of them coincide.
\<close>

lemma lcg_orbit_collision:
  assumes "0 < m"
  shows "\<exists>i j. i < j \<and> j \<le> nat m \<and> lcg_orbit m a c x0 !! i = lcg_orbit m a c x0 !! j"
proof -
  let ?s = "\<lambda>n. lcg_orbit m a c x0 !! n"
  have sub: "?s ` {0..nat m} \<subseteq> {0..<m}"
    using lcg_orbit_in_py_range [of m a c x0] assms by (auto simp: in_py_range_pos)
  have "\<not> inj_on ?s {0..nat m}"
  proof
    assume "inj_on ?s {0..nat m}"
    then have "card (?s ` {0..nat m}) = Suc (nat m)"
      by (simp add: card_image)
    moreover have "card (?s ` {0..nat m}) \<le> card {0..<m}"
      by (rule card_mono) (simp_all add: sub)
    ultimately show False using assms by simp
  qed
  then obtain i j where "i \<in> {0..nat m}" "j \<in> {0..nat m}" "i \<noteq> j" "?s i = ?s j"
    by (auto simp: inj_on_def)
  then show ?thesis
    by (metis atLeastAtMost_iff linorder_neqE_nat)
qed

end
