(* ===== verification/Aleat_Class.thy ===== *)
theory Aleat_Class
  imports LCG_Engine
begin

text \<open>
  The iterable class \<open>Aleat\<close> of \<open>src/aleatorios.py\<close> (lines 13--60). An instance is a
  record of its four attributes; \<open>__init__\<close>, \<open>__iter__\<close>, \<open>__next__\<close> and
  \<open>__call__\<close> are functions on it that return the new state with the call's outcome. The
  docstring session (lines 27--43) is a run of a list of operations. The lemmas give the
  behaviour of every method on every branch, the error of a zero modulus, the reset
  semantics of \<open>__call__\<close>, the eventual periodicity of the pulls, and a refinement:
  the values an instance produces are the stream \<open>lcg_orbit\<close> of its current
  attributes.
\<close>

section \<open>State and methods\<close>

text \<open>The instance attributes \<open>self.m\<close>, \<open>self.a\<close>, \<open>self.c\<close>, \<open>self.x\<close>.\<close>

record Aleat =
  self_m :: int
  self_a :: int
  self_c :: int
  self_x :: int

text \<open>
  \<open>__init__(self, *, m=2**48, a=25214903917, c=11, x0=1212121)\<close>: keyword-only
  arguments with defaults; the seed is stored as given, not reduced.
\<close>

definition Aleat_init :: "int option \<Rightarrow> int option \<Rightarrow> int option \<Rightarrow> int option \<Rightarrow> Aleat" where
  "Aleat_init m a c x0 =
     \<lparr>self_m = kwarg m (2 ^ 48), self_a = kwarg a 25214903917, self_c = kwarg c 11,
      self_x = kwarg x0 1212121\<rparr>"

text \<open>\<open>__iter__\<close> returns the instance itself: iterating shares the state.\<close>

definition Aleat_iter :: "Aleat \<Rightarrow> Aleat" where
  "Aleat_iter s = s"

text \<open>
  \<open>__next__\<close>: \<open>self.x = (self.a * self.x + self.c) % self.m\<close>, then \<open>return self.x\<close>.
  When \<open>%\<close> raises, the assignment does not happen and the state is unchanged.
\<close>

definition Aleat_next :: "Aleat \<Rightarrow> int py_result \<times> Aleat" where
  "Aleat_next s =
     (case lcg (self_m s) (self_a s) (self_c s) (self_x s) of
        Inl e \<Rightarrow> (Inl e, s)
      | Inr v \<Rightarrow> (Inr v, s\<lparr>self_x := v\<rparr>))"

text \<open>\<open>__call__(self, x0)\<close>: \<open>self.x = x0\<close>; returns \<open>None\<close>, emits nothing.\<close>

definition Aleat_call :: "Aleat \<Rightarrow> int \<Rightarrow> Aleat" where
  "Aleat_call s x0 = s\<lparr>self_x := x0\<rparr>"

text \<open>
  A session with an instance, as the docstring runs one: \<open>next(rand)\<close> prints a value,
  \<open>rand(v)\<close> resets and prints nothing, an exception ends the session.
\<close>

datatype Aleat_op = Next | Call int

fun Aleat_run :: "Aleat \<Rightarrow> Aleat_op list \<Rightarrow> int list py_result \<times> Aleat" where
  "Aleat_run s [] = (Inr [], s)"
| "Aleat_run s (Call v # ops) = Aleat_run (Aleat_call s v) ops"
| "Aleat_run s (Next # ops) =
     (case Aleat_next s of
        (Inl e, s') \<Rightarrow> (Inl e, s')
      | (Inr v, s') \<Rightarrow> py_cons v (Aleat_run s' ops))"

text \<open>\<open>for _ in range(n): next(rand)\<close>, the bounded consumption of the docstring.\<close>

definition Aleat_take :: "nat \<Rightarrow> Aleat \<Rightarrow> int list py_result \<times> Aleat" where
  "Aleat_take n s = Aleat_run s (replicate n Next)"

section \<open>Abstraction\<close>

text \<open>
  The values an instance will produce from now on, if only \<open>next\<close> is called: the
  abstraction of an instance to the specification stream.
\<close>

definition Aleat_values :: "Aleat \<Rightarrow> int stream" where
  "Aleat_values s = lcg_orbit (self_m s) (self_a s) (self_c s) (self_x s)"

section \<open>Lemmas on the methods\<close>

lemma Aleat_next_nonzero [py_simps]:
  "self_m s \<noteq> 0 \<Longrightarrow>
   Aleat_next s = (Inr (lcg_fun (self_m s) (self_a s) (self_c s) (self_x s)),
                   s\<lparr>self_x := lcg_fun (self_m s) (self_a s) (self_c s) (self_x s)\<rparr>)"
  by (simp add: Aleat_next_def lcg_nonzero)

lemma Aleat_next_zero [py_simps]: "self_m s = 0 \<Longrightarrow> Aleat_next s = (Inl ZeroDivisionError, s)"
  by (simp add: Aleat_next_def lcg_zero)

lemma Aleat_next_params:
  "self_m (snd (Aleat_next s)) = self_m s \<and> self_a (snd (Aleat_next s)) = self_a s \<and>
   self_c (snd (Aleat_next s)) = self_c s"
  by (simp add: Aleat_next_def split: sum.split)

lemma Aleat_values_next:
  "self_m s \<noteq> 0 \<Longrightarrow> Aleat_values (snd (Aleat_next s)) = stl (Aleat_values s)"
  by (simp add: Aleat_next_nonzero Aleat_values_def lcg_orbit_stl)

lemma Aleat_next_shd:
  "self_m s \<noteq> 0 \<Longrightarrow> fst (Aleat_next s) = Inr (shd (Aleat_values s))"
  by (simp add: Aleat_next_nonzero Aleat_values_def lcg_orbit_shd)

lemma Aleat_run_replicate_values:
  "self_m s \<noteq> 0 \<Longrightarrow>
   Aleat_run s (replicate n Next) =
     (Inr (stake n (Aleat_values s)), s\<lparr>self_x := (lcg_fun (self_m s) (self_a s) (self_c s) ^^ n) (self_x s)\<rparr>)"
proof (induction n arbitrary: s)
  case 0
  then show ?case by simp
next
  case (Suc n)
  let ?f = "lcg_fun (self_m s) (self_a s) (self_c s)"
  have "Aleat_run s (replicate (Suc n) Next) = py_cons (?f (self_x s)) (Aleat_run (s\<lparr>self_x := ?f (self_x s)\<rparr>) (replicate n Next))"
    using Suc.prems by (simp add: Aleat_next_nonzero)
  also have "\<dots> = py_cons (?f (self_x s)) (Inr (stake n (Aleat_values (s\<lparr>self_x := ?f (self_x s)\<rparr>))), s\<lparr>self_x := (?f ^^ n) (?f (self_x s))\<rparr>)"
    using Suc.prems by (simp add: Suc.IH)
  finally show ?case
    by (simp add: py_cons_Inr Aleat_values_def lcg_orbit_stl lcg_orbit_shd funpow_swap1)
qed

text \<open>A session split in two: the second part runs from the state the first ends in.\<close>

lemma Aleat_run_append:
  "Aleat_run s (ops1 @ ops2) = py_then (Aleat_run s ops1) (\<lambda>s'. Aleat_run s' ops2)"
proof (induction s ops1 rule: Aleat_run.induct)
  case (3 s ops)
  then show ?case
    by (cases "Aleat_next s") (simp add: py_simps split: sum.split)
qed (simp_all add: py_simps)

lemma Aleat_run_length:
  "Aleat_run s ops = (Inr vs, s') \<Longrightarrow> length vs = length (filter ((=) Next) ops)"
  by (induction s ops arbitrary: vs rule: Aleat_run.induct)
    (auto simp: py_cons_Inr_iff split: prod.splits sum.splits)

lemma Aleat_run_params:
  "self_m (snd (Aleat_run s ops)) = self_m s \<and> self_a (snd (Aleat_run s ops)) = self_a s \<and>
   self_c (snd (Aleat_run s ops)) = self_c s"
  by (induction s ops rule: Aleat_run.induct)
    (auto simp: Aleat_call_def Aleat_next_def py_cons_def split: prod.splits sum.splits)

lemma Aleat_run_split_Inr:
  assumes "Aleat_run s (ops1 @ ops2) = (Inr vs, s')"
  obtains vs1 s1 ws where "Aleat_run s ops1 = (Inr vs1, s1)" and "Aleat_run s1 ops2 = (Inr ws, s')"
    and "vs = vs1 @ ws"
  using assms by (cases "Aleat_run s ops1" rule: prod.exhaust)
    (auto simp: Aleat_run_append py_then_def py_append_Inr_iff split: sum.splits)

text \<open>A session that starts with \<open>n\<close> pulls: their values, then the rest from the state they leave.\<close>

lemma Aleat_run_replicate_append:
  "self_m s \<noteq> 0 \<Longrightarrow>
   Aleat_run s (replicate n Next @ ops) =
     py_append (stake n (Aleat_values s))
       (Aleat_run (s\<lparr>self_x := (lcg_fun (self_m s) (self_a s) (self_c s) ^^ n) (self_x s)\<rparr>) ops)"
  by (simp add: Aleat_run_append Aleat_run_replicate_values py_simps)

text \<open>With a non-zero modulus, \<open>n\<close> pulls return the first \<open>n\<close> values of the stream.\<close>

lemma Aleat_take_stake:
  "self_m s \<noteq> 0 \<Longrightarrow> fst (Aleat_take n s) = Inr (stake n (Aleat_values s))"
  by (simp add: Aleat_take_def Aleat_run_replicate_values)

text \<open>
  The stream of a positive modulus is eventually periodic, with pre-period plus period at
  most \<open>m\<close>: a pigeonhole on its first \<open>m + 1\<close> elements.
\<close>

lemma Aleat_values_eventually_periodic:
  assumes "0 < self_m s"
  shows "\<exists>mu lam. 0 < lam \<and> mu + lam \<le> nat (self_m s) \<and>
           (\<forall>n\<ge>mu. Aleat_values s !! (n + lam) = Aleat_values s !! n)"
proof -
  obtain i j where ij: "i < j" "j \<le> nat (self_m s)"
    and eq: "Aleat_values s !! i = Aleat_values s !! j"
    using lcg_orbit_collision [OF assms] unfolding Aleat_values_def by blast
  have "Aleat_values s !! (n + (j - i)) = Aleat_values s !! n" if "i \<le> n" for n
    using lcg_orbit_periodic_from [of _ _ _ _ i "j - i", OF _ that] eq ij(1)
    unfolding Aleat_values_def by simp
  with ij show ?thesis
    by (intro exI [of _ i] exI [of _ "j - i"]) simp
qed

section \<open>Properties of the class\<close>

text \<open>
  C1 (refinement). Pulling \<open>n\<close> values from an instance with a non-zero modulus returns
  the first \<open>n\<close> elements of the specification stream of its attributes, and leaves an
  instance whose stream is the rest of it.
\<close>

theorem Aleat_take_refines_orbit:
  assumes "self_m s \<noteq> 0"
  shows "fst (Aleat_take n s) = Inr (stake n (Aleat_values s)) \<and>
         Aleat_values (snd (Aleat_take n s)) = sdrop n (Aleat_values s)"
  using assms
  by (simp add: Aleat_take_def Aleat_run_replicate_values Aleat_values_def lcg_orbit_def
      funpow_swap1)

theorem Aleat_take_refines_orbit_witness:
  "self_m (Aleat_init (Some 32) (Some 9) (Some 13) (Some 11)) \<noteq> 0 \<and>
   fst (Aleat_take 2 (Aleat_init (Some 32) (Some 9) (Some 13) (Some 11))) =
     Inr (stake 2 (Aleat_values (Aleat_init (Some 32) (Some 9) (Some 13) (Some 11))))"
  using Aleat_take_refines_orbit [of "Aleat_init (Some 32) (Some 9) (Some 13) (Some 11)" 2]
  by (simp add: Aleat_init_def)

text \<open>
  C2 (functional, bounds). With a positive modulus \<open>__next__\<close> does not raise; it returns
  \<open>(a * x + c) mod m\<close>, stores it as the new \<open>self.x\<close>, and the value lies in
  \<open>[0, m)\<close>.
\<close>

theorem Aleat_next_in_range:
  assumes "0 < self_m s"
  shows "\<exists>v. Aleat_next s = (Inr v, s\<lparr>self_x := v\<rparr>) \<and>
             v = (self_a s * self_x s + self_c s) mod self_m s \<and> 0 \<le> v \<and> v < self_m s"
  using assms by (simp add: Aleat_next_nonzero lcg_fun_def)

theorem Aleat_next_in_range_witness:
  "0 < self_m (Aleat_init (Some 32) (Some 9) (Some 13) (Some 11)) \<and>
   (\<exists>v. Aleat_next (Aleat_init (Some 32) (Some 9) (Some 13) (Some 11)) =
      (Inr v, (Aleat_init (Some 32) (Some 9) (Some 13) (Some 11))\<lparr>self_x := v\<rparr>) \<and>
      v = (9 * 11 + 13) mod 32 \<and> 0 \<le> v \<and> v < 32)"
  using Aleat_next_in_range [of "Aleat_init (Some 32) (Some 9) (Some 13) (Some 11)"]
  by (simp add: Aleat_init_def)

text \<open>
  C3 (functional: reset). After \<open>rand(seed)\<close> the next \<open>n\<close> pulls are the first \<open>n\<close>
  elements of the stream of \<open>seed\<close>: the reset emits nothing and the first pull after it
  is \<open>(a * seed + c) mod m\<close>, with \<open>m\<close>, \<open>a\<close>, \<open>c\<close> kept.
\<close>

theorem Aleat_reset_semantics:
  assumes "self_m s \<noteq> 0"
  shows "fst (Aleat_run s (Call seed # replicate n Next)) =
           Inr (stake n (lcg_orbit (self_m s) (self_a s) (self_c s) seed))"
  using assms by (simp add: Aleat_call_def Aleat_run_replicate_values Aleat_values_def)

theorem Aleat_reset_semantics_witness:
  "self_m (Aleat_init (Some 32) (Some 9) (Some 13) (Some 11)) \<noteq> 0 \<and>
   fst (Aleat_run (Aleat_init (Some 32) (Some 9) (Some 13) (Some 11)) (Call 29 # replicate 1 Next))
     = Inr [(9 * 29 + 13) mod 32]"
  using Aleat_reset_semantics [of "Aleat_init (Some 32) (Some 9) (Some 13) (Some 11)" 29 1]
  by (simp add: Aleat_init_def lcg_orbit_def lcg_fun_def)

text \<open>
  C4 (functional: recurrence law). In any session, two values pulled one after the other,
  with no reset between them, satisfy \<open>v' = (a * v + c) mod m\<close>; the first is the value
  number \<open>k\<close> of the session, \<open>k\<close> the number of pulls before it.
\<close>

theorem Aleat_recurrence_law:
  assumes "Aleat_run s (ops1 @ Next # Next # ops2) = (Inr vs, s')"
    and "k = length (filter ((=) Next) ops1)"
  shows "vs ! Suc k = (self_a s * vs ! k + self_c s) mod self_m s"
proof -
  obtain vs1 s1 ws where r1: "Aleat_run s ops1 = (Inr vs1, s1)"
    and r2: "Aleat_run s1 (Next # Next # ops2) = (Inr ws, s')" and vs: "vs = vs1 @ ws"
    using assms(1) by (rule Aleat_run_split_Inr)
  have len: "length vs1 = k"
    using Aleat_run_length [OF r1] assms(2) by simp
  have par: "self_m s1 = self_m s" "self_a s1 = self_a s" "self_c s1 = self_c s"
    using Aleat_run_params [of s ops1] r1 by simp_all
  have m: "self_m s1 \<noteq> 0"
    using r2 by (cases "self_m s1 = 0") (simp_all add: Aleat_next_zero)
  let ?f = "lcg_fun (self_m s1) (self_a s1) (self_c s1)"
  obtain us where "ws = ?f (self_x s1) # ?f (?f (self_x s1)) # us"
    using r2 m by (auto simp: Aleat_next_nonzero py_cons_Inr_iff)
  with vs len par show ?thesis
    by (simp add: nth_append lcg_fun_def)
qed

theorem Aleat_recurrence_law_witness:
  "Aleat_run (Aleat_init (Some 32) (Some 9) (Some 13) (Some 11)) ([Next, Call 29] @ Next # Next # [])
     = (Inr [16, 18, 15], Aleat_init (Some 32) (Some 9) (Some 13) (Some 15)) \<and>
   [16, 18, 15] ! Suc 1 = (9 * [16, 18, 15] ! 1 + 13) mod (32::int)"
proof -
  have run: "Aleat_run (Aleat_init (Some 32) (Some 9) (Some 13) (Some 11))
      ([Next, Call 29] @ Next # Next # [])
     = (Inr [16, 18, 15], Aleat_init (Some 32) (Some 9) (Some 13) (Some 15))"
    by (simp add: Aleat_init_def Aleat_call_def py_simps lcg_fun_def)
  have "[16, 18, 15] ! Suc 1 = (9 * [16, 18, 15] ! 1 + 13) mod (32::int)"
    using Aleat_recurrence_law [OF run, of 1] by (simp add: Aleat_init_def)
  with run show ?thesis by simp
qed

text \<open>
  C5 (error). The constructor does not validate the modulus: with \<open>m = 0\<close> every session
  that pulls a value raises \<open>ZeroDivisionError\<close>, and a session of resets only succeeds.
\<close>

theorem Aleat_zero_modulus_raises:
  assumes "self_m s = 0"
  shows "fst (Aleat_run s ops) = (if Next \<in> set ops then Inl ZeroDivisionError else Inr [])"
  using assms
  by (induction s ops rule: Aleat_run.induct) (simp_all add: Aleat_call_def py_simps)

theorem Aleat_zero_modulus_raises_witness:
  "self_m (Aleat_init (Some 0) None None None) = 0 \<and>
   fst (Aleat_run (Aleat_init (Some 0) None None None) [Call 5, Next]) = Inl ZeroDivisionError"
  using Aleat_zero_modulus_raises [of "Aleat_init (Some 0) None None None" "[Call 5, Next]"]
  by (simp add: Aleat_init_def)

text \<open>
  C6 (bounds: periodicity). For a positive modulus the values the calls of \<open>next\<close> on
  an instance return are eventually periodic: however many pulls are made, from pull
  \<open>mu\<close> on they repeat with a period \<open>lam\<close>, and \<open>mu + lam \<le> m\<close>. The bound comes
  from the reduction \<open>% self.m\<close> of line 56.
\<close>

theorem Aleat_eventually_periodic:
  assumes "0 < self_m s"
  shows "\<exists>mu lam. 0 < lam \<and> mu + lam \<le> nat (self_m s) \<and>
           (\<forall>N. \<exists>vs. fst (Aleat_take N s) = Inr vs \<and>
                   (\<forall>n. mu \<le> n \<and> n + lam < N \<longrightarrow> vs ! (n + lam) = vs ! n))"
proof -
  obtain mu lam where p: "0 < lam" "mu + lam \<le> nat (self_m s)"
    and per: "\<And>n. mu \<le> n \<Longrightarrow> Aleat_values s !! (n + lam) = Aleat_values s !! n"
    using Aleat_values_eventually_periodic [OF assms] by blast
  have "fst (Aleat_take N s) = Inr (stake N (Aleat_values s))" for N
    using assms by (simp add: Aleat_take_stake)
  with p per show ?thesis
    by (intro exI [of _ mu] exI [of _ lam]) auto
qed

theorem Aleat_eventually_periodic_witness:
  "0 < self_m (Aleat_init (Some 32) (Some 9) (Some 13) (Some 11)) \<and>
   (\<exists>mu lam. 0 < lam \<and> mu + lam \<le> 32 \<and>
      (\<forall>N. \<exists>vs. fst (Aleat_take N (Aleat_init (Some 32) (Some 9) (Some 13) (Some 11))) = Inr vs \<and>
              (\<forall>n. mu \<le> n \<and> n + lam < N \<longrightarrow> vs ! (n + lam) = vs ! n)))"
  using Aleat_eventually_periodic [of "Aleat_init (Some 32) (Some 9) (Some 13) (Some 11)"]
  by (simp add: Aleat_init_def)

text \<open>
  C17 (bounds: negative modulus). A negative modulus is accepted and does not raise:
  Python's \<open>%\<close> takes the sign of the divisor, so \<open>__next__\<close> returns values in
  \<open>(m, 0]\<close>, never in the range \<open>[0, m)\<close> the spec states for positive moduli.
\<close>

theorem Aleat_next_negative_modulus:
  assumes "self_m s < 0"
  shows "\<exists>v. Aleat_next s = (Inr v, s\<lparr>self_x := v\<rparr>) \<and> self_m s < v \<and> v \<le> 0"
proof -
  have "in_py_range (self_m s) (lcg_fun (self_m s) (self_a s) (self_c s) (self_x s))"
    using assms by (simp add: lcg_fun_in_py_range)
  with assms show ?thesis
    by (simp add: Aleat_next_nonzero in_py_range_neg)
qed

theorem Aleat_next_negative_modulus_witness:
  "self_m (Aleat_init (Some (-32)) (Some 9) (Some 13) (Some 11)) < 0 \<and>
   fst (Aleat_next (Aleat_init (Some (-32)) (Some 9) (Some 13) (Some 11))) = Inr (-16)"
  using Aleat_next_negative_modulus [of "Aleat_init (Some (-32)) (Some 9) (Some 13) (Some 11)"]
  by (simp add: Aleat_init_def py_simps lcg_fun_def)

text \<open>
  C22 (roundtrip: reseeding with an emitted value). With a non-zero modulus, after any
  number of pulls, resetting the instance to the value it emitted as its \<open>k\<close>-th
  (counting from 0) replays the stream from element \<open>k + 1\<close> on. This is what the
  class docstring shows: \<open>rand(29)\<close>, with \<open>29\<close> the second value, is followed by
  \<open>18, 15, 20, 1\<close>, the values that followed \<open>29\<close> the first time.
\<close>

theorem Aleat_reseed_replays:
  assumes "self_m s \<noteq> 0"
  shows "fst (Aleat_run s (replicate j Next @ Call (Aleat_values s !! k) # replicate n Next)) =
           Inr (stake j (Aleat_values s) @ stake n (sdrop (Suc k) (Aleat_values s)))"
  using assms
  by (simp add: Aleat_run_replicate_append Aleat_call_def Aleat_run_replicate_values py_simps
      Aleat_values_def lcg_orbit_restart del: replicate.simps)

theorem Aleat_reseed_replays_witness:
  "self_m (Aleat_init (Some 32) (Some 9) (Some 13) (Some 11)) \<noteq> 0 \<and>
   Aleat_values (Aleat_init (Some 32) (Some 9) (Some 13) (Some 11)) !! 1 = 29 \<and>
   fst (Aleat_run (Aleat_init (Some 32) (Some 9) (Some 13) (Some 11))
          (replicate 4 Next @ Call 29 # replicate 4 Next)) = Inr [16, 29, 18, 15, 18, 15, 20, 1]"
proof -
  let ?s = "Aleat_init (Some 32) (Some 9) (Some 13) (Some 11)"
  have m: "self_m ?s \<noteq> 0" by (simp add: Aleat_init_def)
  have v: "Aleat_values ?s !! 1 = 29"
    by (simp add: Aleat_values_def Aleat_init_def lcg_orbit_snth lcg_fun_def numeral_eq_Suc
        del: snth.simps)
  have "stake 4 (Aleat_values ?s) @ stake 4 (sdrop (Suc 1) (Aleat_values ?s)) =
        [16, 29, 18, 15, 18, 15, 20, 1]"
    by (simp add: Aleat_values_def Aleat_init_def lcg_orbit_def lcg_fun_def numeral_eq_Suc)
  with Aleat_reseed_replays [OF m, of 4 1 4] m v show ?thesis by simp
qed

end
