(* ===== verification/Aleat_Generator.thy ===== *)
theory Aleat_Generator
  imports LCG_Engine
begin

text \<open>
  The generator function \<open>aleat\<close> of \<open>src/aleatorios.py\<close> (lines 63--101). Calling it
  creates a generator object that has not started; the object is a frame holding the
  locals \<open>m\<close>, \<open>a\<close>, \<open>c\<close>, \<open>x\<close> and the state of the generator as Python's
  \<open>inspect.getgeneratorstate\<close> names it. \<open>next(gen)\<close> is \<open>gen.send(None)\<close>; both
  resume the body at its suspension point. The lemmas give each resumption on every
  branch (first pull, pull, injection, exhaustion after an exception), the invariant of
  the reachable frames by rule induction, the round trip of injecting an emitted value,
  and a refinement: plain pulls produce the stream \<open>lcg_orbit\<close> of the frame's
  locals.
\<close>

section \<open>Generator frame\<close>

text \<open>
  \<open>GEN_RUNNING\<close> is not a state of the model: the body never calls back into its own
  generator, so every resumption runs to the next \<open>yield\<close> or to an exception.
\<close>

datatype gen_state = GEN_CREATED | GEN_SUSPENDED | GEN_CLOSED

text \<open>
  The locals of the frame. Before the first resumption \<open>g_x\<close> holds \<open>x0\<close>, the value
  line 97 (\<open>x = x0\<close>) assigns to \<open>x\<close> when the body starts.
\<close>

record aleat_gen =
  g_m :: int
  g_a :: int
  g_c :: int
  g_x :: int
  g_state :: gen_state

text \<open>\<open>aleat(*, m=2**48, a=25214903917, c=11, x0=1212121)\<close> returns a generator that has not started.\<close>

definition aleat :: "int option \<Rightarrow> int option \<Rightarrow> int option \<Rightarrow> int option \<Rightarrow> aleat_gen" where
  "aleat m a c x0 =
     \<lparr>g_m = kwarg m (2 ^ 48), g_a = kwarg a 25214903917, g_c = kwarg c 11,
      g_x = kwarg x0 1212121, g_state = GEN_CREATED\<rparr>"

text \<open>
  One pass of the loop from its head to the \<open>yield\<close>: \<open>x := (a * x + c) % m\<close> is
  assigned and yielded. An exception leaves the body and finishes the generator.
\<close>

definition gen_loop :: "aleat_gen \<Rightarrow> int py_result \<times> aleat_gen" where
  "gen_loop g =
     (case lcg (g_m g) (g_a g) (g_c g) (g_x g) of
        Inl e \<Rightarrow> (Inl e, g\<lparr>g_state := GEN_CLOSED\<rparr>)
      | Inr v \<Rightarrow> (Inr v, g\<lparr>g_x := v, g_state := GEN_SUSPENDED\<rparr>))"

text \<open>
  \<open>gen.send(v)\<close>, with \<open>None\<close> for Python's \<open>None\<close>. A generator that has not started
  accepts only \<open>None\<close> (any other value raises \<open>TypeError\<close> and leaves it unstarted) and
  runs from line 97. A suspended one receives \<open>v\<close> as \<open>new_seed\<close>; lines 100--101
  store it in \<open>x\<close> unless it is \<open>None\<close>, and the loop runs again. A finished one raises
  \<open>StopIteration\<close>.
\<close>

definition gen_send :: "aleat_gen \<Rightarrow> int option \<Rightarrow> int py_result \<times> aleat_gen" where
  "gen_send g v =
     (case g_state g of
        GEN_CREATED \<Rightarrow> (case v of None \<Rightarrow> gen_loop g | Some _ \<Rightarrow> (Inl TypeError, g))
      | GEN_SUSPENDED \<Rightarrow> gen_loop (case v of None \<Rightarrow> g | Some new_seed \<Rightarrow> g\<lparr>g_x := new_seed\<rparr>)
      | GEN_CLOSED \<Rightarrow> (Inl StopIteration, g))"

text \<open>
  A session with a generator, as its docstring runs one (lines 78--95): \<open>next(rand)\<close>
  and \<open>rand.send(v)\<close> each print the value they return; an exception ends the session.
\<close>

datatype gen_op = GNext | GSend int

primrec gen_op_arg :: "gen_op \<Rightarrow> int option" where
  "gen_op_arg GNext = None"
| "gen_op_arg (GSend v) = Some v"

fun gen_run :: "aleat_gen \<Rightarrow> gen_op list \<Rightarrow> int list py_result \<times> aleat_gen" where
  "gen_run g [] = (Inr [], g)"
| "gen_run g (op # ops) =
     (case gen_send g (gen_op_arg op) of
        (Inl e, g') \<Rightarrow> (Inl e, g')
      | (Inr v, g') \<Rightarrow> py_cons v (gen_run g' ops))"

section \<open>Reachable frames\<close>

text \<open>The frames a program can observe: a new generator, and any frame after a resumption.\<close>

inductive gen_reachable :: "aleat_gen \<Rightarrow> bool" where
  created: "gen_reachable (aleat m a c x0)"
| resumed: "gen_reachable g \<Longrightarrow> gen_reachable (snd (gen_send g v))"

text \<open>
  What every reachable frame satisfies: a suspended frame holds the last yielded value,
  which lies in the range of \<open>% m\<close>; a frame finishes only by the
  \<open>ZeroDivisionError\<close> of a zero modulus.
\<close>

definition gen_inv :: "aleat_gen \<Rightarrow> bool" where
  "gen_inv g =
     ((g_state g = GEN_SUSPENDED \<longrightarrow> in_py_range (g_m g) (g_x g)) \<and>
      (g_state g = GEN_CLOSED \<longrightarrow> g_m g = 0))"

text \<open>The values a generator will produce under plain pulls, unless it has finished.\<close>

definition gen_values :: "aleat_gen \<Rightarrow> int stream" where
  "gen_values g = lcg_orbit (g_m g) (g_a g) (g_c g) (g_x g)"

section \<open>Lemmas on one resumption\<close>

lemma gen_loop_nonzero [py_simps]:
  "g_m g \<noteq> 0 \<Longrightarrow>
   gen_loop g = (Inr (lcg_fun (g_m g) (g_a g) (g_c g) (g_x g)),
     g\<lparr>g_x := lcg_fun (g_m g) (g_a g) (g_c g) (g_x g), g_state := GEN_SUSPENDED\<rparr>)"
  by (simp add: gen_loop_def lcg_nonzero)

lemma gen_loop_zero [py_simps]:
  "g_m g = 0 \<Longrightarrow> gen_loop g = (Inl ZeroDivisionError, g\<lparr>g_state := GEN_CLOSED\<rparr>)"
  by (simp add: gen_loop_def lcg_zero)

lemma gen_send_created [py_simps]:
  "g_state g = GEN_CREATED \<Longrightarrow> gen_send g None = gen_loop g"
  "g_state g = GEN_CREATED \<Longrightarrow> gen_send g (Some v) = (Inl TypeError, g)"
  by (simp_all add: gen_send_def)

lemma gen_send_suspended [py_simps]:
  "g_state g = GEN_SUSPENDED \<Longrightarrow> gen_send g None = gen_loop g"
  "g_state g = GEN_SUSPENDED \<Longrightarrow> gen_send g (Some v) = gen_loop (g\<lparr>g_x := v\<rparr>)"
  by (simp_all add: gen_send_def)

lemma gen_send_closed [py_simps]:
  "g_state g = GEN_CLOSED \<Longrightarrow> gen_send g v = (Inl StopIteration, g)"
  by (simp add: gen_send_def)

lemma gen_send_params:
  "g_m (snd (gen_send g v)) = g_m g \<and> g_a (snd (gen_send g v)) = g_a g \<and>
   g_c (snd (gen_send g v)) = g_c g"
  by (simp add: gen_send_def gen_loop_def split: gen_state.split option.split sum.split)

lemma gen_send_inv: "gen_inv g \<Longrightarrow> gen_inv (snd (gen_send g v))"
  by (cases "g_m g = 0")
    (auto simp: gen_inv_def gen_send_def gen_loop_def lcg_nonzero lcg_zero lcg_fun_in_py_range
      split: gen_state.split option.split)

lemma gen_aleat_inv [py_simps]: "gen_inv (aleat m a c x0)"
  by (simp add: gen_inv_def aleat_def)

lemma gen_loop_values:
  "g_m g \<noteq> 0 \<Longrightarrow> gen_values (snd (gen_loop g)) = stl (gen_values g) \<and>
                   fst (gen_loop g) = Inr (shd (gen_values g))"
  by (simp add: gen_loop_nonzero gen_values_def lcg_orbit_stl lcg_orbit_shd)

lemma gen_run_replicate_values:
  "g_m g \<noteq> 0 \<Longrightarrow> g_state g \<noteq> GEN_CLOSED \<Longrightarrow>
   fst (gen_run g (replicate n GNext)) = Inr (stake n (gen_values g))"
proof (induction n arbitrary: g)
  case 0
  then show ?case by simp
next
  case (Suc n)
  then have send: "gen_send g None = gen_loop g"
    by (cases "g_state g") (simp_all add: py_simps)
  have "g_m (snd (gen_loop g)) \<noteq> 0" "g_state (snd (gen_loop g)) \<noteq> GEN_CLOSED"
    using Suc.prems by (simp_all add: gen_loop_nonzero)
  then have "fst (gen_run (snd (gen_loop g)) (replicate n GNext)) =
             Inr (stake n (stl (gen_values g)))"
    using Suc.IH gen_loop_values [OF Suc.prems(1)] by simp
  then show ?case
    using Suc.prems(1) send
    by (simp add: gen_loop_nonzero gen_values_def lcg_orbit_stl lcg_orbit_shd py_simps
        split: prod.split)
qed

lemma gen_run_append:
  "gen_run g (ops1 @ ops2) = py_then (gen_run g ops1) (\<lambda>g'. gen_run g' ops2)"
proof (induction g ops1 rule: gen_run.induct)
  case (2 g op ops)
  then show ?case
    by (cases "gen_send g (gen_op_arg op)") (simp add: py_simps split: sum.split)
qed (simp_all add: py_simps)

text \<open>After at least one pull, a generator with a non-zero modulus is suspended on the last value.\<close>

lemma gen_run_replicate_state:
  assumes "g_m g \<noteq> 0" and "g_state g \<noteq> GEN_CLOSED"
  shows "gen_run g (replicate (Suc n) GNext) =
           (Inr (stake (Suc n) (gen_values g)),
            g\<lparr>g_x := gen_values g !! n, g_state := GEN_SUSPENDED\<rparr>)"
  using assms
proof (induction n arbitrary: g)
  case 0
  then have "gen_send g None = gen_loop g"
    by (cases "g_state g") (simp_all add: py_simps)
  with "0.prems" show ?case
    by (simp add: gen_loop_nonzero gen_values_def lcg_orbit_shd py_simps)
next
  case (Suc n)
  let ?v = "lcg_fun (g_m g) (g_a g) (g_c g) (g_x g)"
  let ?g1 = "g\<lparr>g_x := ?v, g_state := GEN_SUSPENDED\<rparr>"
  have send: "gen_send g None = (Inr ?v, ?g1)"
    using Suc.prems by (cases "g_state g") (simp_all add: py_simps gen_loop_nonzero)
  have IH: "gen_run ?g1 (replicate (Suc n) GNext) =
      (Inr (stake (Suc n) (gen_values ?g1)), ?g1\<lparr>g_x := gen_values ?g1 !! n, g_state := GEN_SUSPENDED\<rparr>)"
    using Suc.prems by (intro Suc.IH) simp_all
  have vals: "gen_values ?g1 = stl (gen_values g)" and hd: "?v = shd (gen_values g)"
    by (simp_all add: gen_values_def lcg_orbit_stl lcg_orbit_shd)
  have "gen_run g (replicate (Suc (Suc n)) GNext) = py_cons ?v (gen_run ?g1 (replicate (Suc n) GNext))"
    by (simp only: replicate_Suc gen_run.simps gen_op_arg.simps send prod.case sum.case)
  also have "\<dots> = (Inr (stake (Suc (Suc n)) (gen_values g)),
                   g\<lparr>g_x := gen_values g !! Suc n, g_state := GEN_SUSPENDED\<rparr>)"
    by (simp only: IH vals) (simp add: hd py_cons_Inr)
  finally show ?case .
qed

lemma gen_send_Inr_range:
  "gen_send g v = (Inr w, g') \<Longrightarrow> in_py_range (g_m g) w"
  by (auto simp: gen_send_def gen_loop_def lcg_Inr_iff lcg_fun_in_py_range
      split: gen_state.splits option.splits sum.splits)

lemma gen_run_range:
  "gen_run g ops = (Inr vs, g') \<Longrightarrow> w \<in> set vs \<Longrightarrow> in_py_range (g_m g) w"
proof (induction g ops arbitrary: vs rule: gen_run.induct)
  case (2 g op ops)
  obtain r g1 where s: "gen_send g (gen_op_arg op) = (r, g1)" by fastforce
  with "2.prems"(1) obtain v us where r: "r = Inr v" and rest: "gen_run g1 ops = (Inr us, g')"
    and vs: "vs = v # us"
    by (auto simp: py_cons_Inr_iff split: sum.splits)
  have m: "g_m g1 = g_m g"
    using gen_send_params [of g "gen_op_arg op"] s by simp
  show ?case
  proof (cases "w = v")
    case True
    with s r show ?thesis by (simp add: gen_send_Inr_range)
  next
    case False
    with vs "2.prems"(2) have "w \<in> set us" by simp
    with "2.IH" [OF s [symmetric] r rest] m show ?thesis by simp
  qed
qed simp

section \<open>Properties of the generator\<close>

text \<open>
  C8 (refinement). With a non-zero modulus, \<open>n\<close> plain pulls from a new generator
  \<open>aleat(m=m, a=a, c=c, x0=x0)\<close> return the first \<open>n\<close> elements of the specification
  stream of \<open>x0\<close>.
\<close>

theorem gen_pulls_refine_orbit:
  assumes "m \<noteq> 0"
  shows "fst (gen_run (aleat (Some m) (Some a) (Some c) (Some x0)) (replicate n GNext)) =
           Inr (stake n (lcg_orbit m a c x0))"
  using gen_run_replicate_values [of "aleat (Some m) (Some a) (Some c) (Some x0)" n] assms
  by (simp add: aleat_def gen_values_def)

theorem gen_pulls_refine_orbit_witness:
  "(64::int) \<noteq> 0 \<and>
   fst (gen_run (aleat (Some 64) (Some 5) (Some 46) (Some 36)) (replicate 3 GNext)) =
     Inr (stake 3 (lcg_orbit 64 5 46 36))"
  using gen_pulls_refine_orbit [of 64 5 46 36 3] by simp

text \<open>
  C9 (functional: injection). Sending a seed \<open>s\<close> to a suspended generator stores it in
  \<open>x\<close> and steps the recurrence at once: the same call returns
  \<open>(a * s + c) mod m\<close>, and the pulls after it continue the stream of \<open>s\<close>. The
  seed \<open>0\<close> is a seed like any other: the test is \<open>is not None\<close>.
\<close>

theorem gen_inject_semantics:
  assumes "g_state g = GEN_SUSPENDED" and "g_m g \<noteq> 0"
  shows "gen_send g (Some s) =
           (Inr ((g_a g * s + g_c g) mod g_m g), g\<lparr>g_x := (g_a g * s + g_c g) mod g_m g\<rparr>) \<and>
         fst (gen_run (snd (gen_send g (Some s))) (replicate n GNext)) =
           Inr (stake n (stl (lcg_orbit (g_m g) (g_a g) (g_c g) s)))"
proof -
  have send: "gen_send g (Some s) =
      (Inr (lcg_fun (g_m g) (g_a g) (g_c g) s), g\<lparr>g_x := lcg_fun (g_m g) (g_a g) (g_c g) s\<rparr>)"
    using assms by (simp add: gen_send_suspended gen_loop_nonzero)
  have "fst (gen_run (g\<lparr>g_x := lcg_fun (g_m g) (g_a g) (g_c g) s\<rparr>) (replicate n GNext)) =
        Inr (stake n (gen_values (g\<lparr>g_x := lcg_fun (g_m g) (g_a g) (g_c g) s\<rparr>)))"
    using assms by (intro gen_run_replicate_values) simp_all
  with send show ?thesis
    by (simp add: gen_values_def lcg_orbit_stl lcg_fun_def)
qed

theorem gen_inject_semantics_witness:
  "g_state (snd (gen_run (aleat (Some 64) (Some 5) (Some 46) (Some 36)) [GNext])) = GEN_SUSPENDED \<and>
   g_m (snd (gen_run (aleat (Some 64) (Some 5) (Some 46) (Some 36)) [GNext])) \<noteq> 0 \<and>
   fst (gen_send (snd (gen_run (aleat (Some 64) (Some 5) (Some 46) (Some 36)) [GNext])) (Some 0))
     = Inr 46"
proof -
  have g: "snd (gen_run (aleat (Some 64) (Some 5) (Some 46) (Some 36)) [GNext]) =
           \<lparr>g_m = 64, g_a = 5, g_c = 46, g_x = 34, g_state = GEN_SUSPENDED\<rparr>"
    by (simp add: aleat_def py_simps lcg_fun_def)
  show ?thesis
    unfolding g
    using gen_inject_semantics [of "\<lparr>g_m = 64, g_a = 5, g_c = 46, g_x = 34, g_state = GEN_SUSPENDED\<rparr>" 0 0]
    by simp
qed

text \<open>
  C10 (invariant). Every frame a program can reach satisfies \<open>gen_inv\<close>: a suspended
  frame holds the last yielded value, inside the range of \<open>% m\<close>, and a frame is
  finished only if its modulus is zero.
\<close>

theorem gen_reachable_inv:
  assumes "gen_reachable g"
  shows "gen_inv g"
  using assms
proof (induction rule: gen_reachable.induct)
  case (created m a c x0)
  show ?case by (rule gen_aleat_inv)
next
  case (resumed g v)
  from resumed.IH show ?case by (rule gen_send_inv)
qed

theorem gen_reachable_inv_witness:
  "gen_reachable (snd (gen_send (aleat (Some 64) (Some 5) (Some 46) (Some 36)) None)) \<and>
   gen_inv (snd (gen_send (aleat (Some 64) (Some 5) (Some 46) (Some 36)) None))"
proof -
  have r: "gen_reachable (snd (gen_send (aleat (Some 64) (Some 5) (Some 46) (Some 36)) None))"
    by (intro gen_reachable.resumed gen_reachable.created)
  with gen_reachable_inv [OF r] show ?thesis by simp
qed

text \<open>
  C11 (bounds). Every value a session with a generator of positive modulus produces,
  plain pulls and injections in any order, lies in \<open>[0, m)\<close>.
\<close>

theorem gen_session_in_range:
  assumes "0 < m" and "gen_run (aleat (Some m) a c x0) ops = (Inr vs, g')" and "w \<in> set vs"
  shows "0 \<le> w \<and> w < m"
  using gen_run_range [OF assms(2,3)] assms(1) by (simp add: aleat_def in_py_range_pos)

theorem gen_session_in_range_witness:
  "0 < (64::int) \<and>
   gen_run (aleat (Some 64) (Some 5) (Some 46) (Some 36)) [GNext, GSend (-7)] =
     (Inr [34, 11], \<lparr>g_m = 64, g_a = 5, g_c = 46, g_x = 11, g_state = GEN_SUSPENDED\<rparr>) \<and>
   0 \<le> (11::int) \<and> (11::int) < 64"
proof -
  have run: "gen_run (aleat (Some 64) (Some 5) (Some 46) (Some 36)) [GNext, GSend (-7)] =
     (Inr [34, 11], \<lparr>g_m = 64, g_a = 5, g_c = 46, g_x = 11, g_state = GEN_SUSPENDED\<rparr>)"
    by (simp add: aleat_def py_simps lcg_fun_def)
  have "0 \<le> (11::int) \<and> (11::int) < 64"
    using gen_session_in_range [of 64 "Some 5" "Some 46" "Some 36", OF _ run] by simp
  with run show ?thesis by simp
qed

text \<open>
  C12 (error). With \<open>m = 0\<close> the first pull raises \<open>ZeroDivisionError\<close> and finishes
  the generator; from then on every pull and every send raises \<open>StopIteration\<close>.
\<close>

theorem gen_zero_modulus_exhausts:
  "gen_send (aleat (Some 0) a c x0) None =
     (Inl ZeroDivisionError, (aleat (Some 0) a c x0)\<lparr>g_state := GEN_CLOSED\<rparr>) \<and>
   (\<forall>op ops. gen_run ((aleat (Some 0) a c x0)\<lparr>g_state := GEN_CLOSED\<rparr>) (op # ops) =
      (Inl StopIteration, (aleat (Some 0) a c x0)\<lparr>g_state := GEN_CLOSED\<rparr>))"
  by (simp add: aleat_def gen_send_def gen_loop_def lcg_zero)

text \<open>
  C23 (roundtrip: injecting an emitted value). After \<open>j + 1\<close> pulls from a new
  generator with a non-zero modulus, sending back the value it yielded as its
  \<open>k\<close>-th (counting from 0) returns element \<open>k + 1\<close> and the pulls after it continue
  from there. This is the docstring's \<open>rand.send(24)\<close>: \<open>24\<close> was the second value,
  and \<open>send\<close> returns \<open>38\<close>, followed by \<open>44, 10, 32, 14\<close>, as after \<open>24\<close> the
  first time.
\<close>

theorem gen_send_replays:
  assumes "m \<noteq> 0"
  shows "fst (gen_run (aleat (Some m) a c x0)
            (replicate (Suc j) GNext @ GSend (gen_values (aleat (Some m) a c x0) !! k) # replicate n GNext)) =
         Inr (stake (Suc j) (gen_values (aleat (Some m) a c x0)) @
              stake (Suc n) (sdrop (Suc k) (gen_values (aleat (Some m) a c x0))))"
proof -
  let ?g = "aleat (Some m) a c x0"
  let ?f = "lcg_fun m (g_a ?g) (g_c ?g)"
  let ?O = "lcg_orbit m (g_a ?g) (g_c ?g) (gen_values ?g !! k)"
  let ?g1 = "?g\<lparr>g_x := gen_values ?g !! j, g_state := GEN_SUSPENDED\<rparr>"
  let ?g2 = "?g1\<lparr>g_x := ?f (gen_values ?g !! k)\<rparr>"
  have m: "g_m ?g \<noteq> 0" "g_state ?g \<noteq> GEN_CLOSED"
    using assms by (simp_all add: aleat_def)
  have O: "?O = sdrop (Suc k) (gen_values ?g)"
    using lcg_orbit_restart [of m "g_a ?g" "g_c ?g" "g_x ?g" k]
    by (simp add: gen_values_def aleat_def)
  have send: "gen_send ?g1 (Some (gen_values ?g !! k)) = (Inr (shd ?O), ?g2)"
    using assms by (simp add: gen_send_suspended gen_loop_nonzero aleat_def lcg_orbit_shd)
  have "fst (gen_run ?g2 (replicate n GNext)) = Inr (stake n (gen_values ?g2))"
    using assms by (intro gen_run_replicate_values) (simp_all add: aleat_def)
  also have "gen_values ?g2 = stl ?O"
    by (simp add: gen_values_def lcg_orbit_stl aleat_def)
  finally have rest: "fst (gen_run ?g1 (GSend (gen_values ?g !! k) # replicate n GNext)) =
                      Inr (stake (Suc n) ?O)"
    using send by (simp add: py_simps)
  show ?thesis
    by (simp only: gen_run_append gen_run_replicate_state [OF m] py_then_Inr fst_py_append rest O)
      simp
qed

theorem gen_send_replays_witness:
  "(64::int) \<noteq> 0 \<and> gen_values (aleat (Some 64) (Some 5) (Some 46) (Some 36)) !! 1 = 24 \<and>
   fst (gen_run (aleat (Some 64) (Some 5) (Some 46) (Some 36))
          (replicate 4 GNext @ GSend 24 # replicate 4 GNext)) =
     Inr [34, 24, 38, 44, 38, 44, 10, 32, 14]"
proof -
  let ?g = "aleat (Some 64) (Some 5) (Some 46) (Some 36)"
  have m: "(64::int) \<noteq> 0" by simp
  have v: "gen_values ?g !! 1 = 24"
    by (simp add: gen_values_def aleat_def lcg_orbit_snth lcg_fun_def numeral_eq_Suc
        del: snth.simps)
  have L: "stake 4 (gen_values ?g) @ stake (Suc 4) (sdrop (Suc 1) (gen_values ?g)) =
        [34, 24, 38, 44, 38, 44, 10, 32, 14]"
    by (simp add: gen_values_def aleat_def lcg_orbit_def lcg_fun_def numeral_eq_Suc)
  have e: "Suc 3 = (4::nat)" by simp
  have R: "fst (gen_run ?g (replicate 4 GNext @ GSend 24 # replicate 4 GNext)) =
      Inr [34, 24, 38, 44, 38, 44, 10, 32, 14]"
    using gen_send_replays [of 64 "Some 5" "Some 46" "Some 36" 3 1 4, OF m] unfolding v e L .
  from m v R show ?thesis by (intro conjI)
qed

end
