(* ===== verification/LCG_Word.thy ===== *)
theory LCG_Word
  imports LCG_Engine "HOL-Library.Word"
begin

text \<open>
  The arithmetic of the recurrence at a fixed width. The default modulus of both
  interfaces is \<open>2^48\<close>; the products of the default multiplier \<open>25214903917\<close> with a
  state below \<open>2^48\<close> reach \<open>2^83\<close>, and the spec's design notes ask fixed-width ports
  for a 128-bit multiply. For a modulus that is a power of two no more than \<open>2^64\<close>
  this is not needed: the 64-bit wrap-around keeps the low 48 bits exact, so
  \<open>lcg_word64\<close>, the step \<open>(a * x + c) & (2^48 - 1)\<close> on 64-bit words, computes
  the step of the source for every integer input. For other moduli the 64-bit
  wrap-around changes the residue, and a port needs the wide multiply.
\<close>

unbundle bit_operations_syntax

definition lcg_word64 :: "64 word \<Rightarrow> 64 word \<Rightarrow> 64 word \<Rightarrow> 64 word" where
  "lcg_word64 a c x = (a * x + c) AND mask 48"

section \<open>Lemmas\<close>

lemma mod_2_64_mod_2_48: "y mod 2 ^ 64 mod 2 ^ 48 = y mod (2 ^ 48 :: int)"
  by (rule mod_mod_cancel) (simp add: le_imp_power_dvd)

lemma uint_lcg_word64:
  "uint (lcg_word64 a c x) = take_bit 48 (uint a * uint x + uint c)"
proof -
  have "uint (lcg_word64 a c x) = take_bit 48 (uint (a * x + c))"
    by (simp add: lcg_word64_def unsigned_take_bit_eq flip: take_bit_eq_mask)
  also have "uint (a * x + c) = take_bit 64 (uint a * uint x + uint c)"
    by (simp add: uint_word_ariths take_bit_eq_mod mod_add_left_eq)
  finally show ?thesis by (simp add: take_bit_take_bit)
qed

lemma uint_lcg_word64_of_int:
  "uint (lcg_word64 (word_of_int a) (word_of_int c) (word_of_int x)) = lcg_fun (2 ^ 48) a c x"
proof -
  have "uint (lcg_word64 (word_of_int a) (word_of_int c) (word_of_int x)) =
        take_bit 48 (take_bit 64 a * take_bit 64 x + take_bit 64 c)"
    by (simp add: uint_lcg_word64 uint_word_of_int_eq)
  also have "\<dots> = (take_bit 64 a * take_bit 64 x + take_bit 64 c) mod 2 ^ 48"
    by (simp add: take_bit_eq_mod)
  also have "\<dots> = (a * x + c) mod 2 ^ 48"
  proof (rule mod_add_cong)
    show "take_bit 64 a * take_bit 64 x mod 2 ^ 48 = a * x mod 2 ^ 48"
      by (rule mod_mult_cong) (simp_all only: take_bit_eq_mod mod_2_64_mod_2_48)
    show "take_bit 64 c mod 2 ^ 48 = c mod 2 ^ 48"
      by (simp only: take_bit_eq_mod mod_2_64_mod_2_48)
  qed
  finally show ?thesis by (simp add: lcg_fun_def)
qed

text \<open>Iterating the word step from the seed gives the iterates of the recurrence.\<close>

lemma lcg_word64_funpow:
  "(lcg_fun (2 ^ 48) a c ^^ Suc n) x =
   uint ((lcg_word64 (word_of_int a) (word_of_int c) ^^ Suc n) (word_of_int x))"
proof (induction n)
  case 0
  show ?case by (simp add: uint_lcg_word64_of_int)
next
  case (Suc n)
  have "(lcg_fun (2 ^ 48) a c ^^ Suc (Suc n)) x = lcg_fun (2 ^ 48) a c ((lcg_fun (2 ^ 48) a c ^^ Suc n) x)"
    by simp
  also have "\<dots> = uint (lcg_word64 (word_of_int a) (word_of_int c)
                     ((lcg_word64 (word_of_int a) (word_of_int c) ^^ Suc n) (word_of_int x)))"
    by (simp only: Suc.IH flip: uint_lcg_word64_of_int) simp
  finally show ?case by simp
qed

section \<open>Properties of the fixed-width step\<close>

text \<open>
  C15 (refinement, bounds). For the default modulus \<open>2^48\<close>, one step of the source's
  recurrence, on any integers, is the 64-bit wrap-around step masked to 48 bits.
\<close>

theorem lcg_word64_refines_lcg:
  "lcg (2 ^ 48) a c x = Inr (uint (lcg_word64 (word_of_int a) (word_of_int c) (word_of_int x)))"
  by (simp add: lcg_nonzero uint_lcg_word64_of_int)

end
