(* ===== verification/Aleat_Heap.thy ===== *)
theory Aleat_Heap
  imports Aleat_Class
begin

text \<open>
  \<open>Aleat\<close> instances as Python objects: a client program names them through variables,
  each variable holds a reference, and each reference points into a store of instance
  states. \<open>__iter__\<close> returns \<open>self\<close>, so \<open>it = iter(rand)\<close> binds a second name to
  the same reference; two calls of the constructor allocate two references. The
  statements are the ones the docstring uses: construction, \<open>iter\<close>, \<open>next\<close> and a
  call. The lemma shows that every printed value is determined by its object alone:
  pulls through aliases share one stream, pulls from distinct objects do not
  interfere.
\<close>

section \<open>Client programs over a store of instances\<close>

datatype stmt =
    New string "int option" "int option" "int option" "int option"
      \<comment> \<open>\<open>v = Aleat(m=.., a=.., c=.., x0=..)\<close>\<close>
  | Iter string string \<comment> \<open>\<open>w = iter(v)\<close>\<close>
  | Print_next string \<comment> \<open>\<open>print(next(v))\<close>\<close>
  | Reseed string int \<comment> \<open>\<open>v(x0)\<close>\<close>

record py_env =
  env_vars :: "string \<rightharpoonup> nat"
  env_heap :: "nat \<rightharpoonup> Aleat"
  env_next :: nat

text \<open>
  One statement. The constructor allocates a fresh reference. \<open>iter(v)\<close> calls
  \<open>__iter__\<close>, which returns \<open>self\<close>: the reference \<open>v\<close> holds. \<open>next(v)\<close> and
  \<open>v(x0)\<close> run the methods on the object \<open>v\<close> refers to and store its new state, also
  when \<open>__next__\<close> raises. A reference without an object does not occur in
  well-formed stores; it is treated as the name error it would be.
\<close>

fun exec_stmt :: "py_env \<Rightarrow> stmt \<Rightarrow> int list py_result \<times> py_env" where
  "exec_stmt e (New v m a c x0) =
     (Inr [], e\<lparr>env_vars := (env_vars e)(v \<mapsto> env_next e),
               env_heap := (env_heap e)(env_next e \<mapsto> Aleat_init m a c x0),
               env_next := Suc (env_next e)\<rparr>)"
| "exec_stmt e (Iter w v) =
     (case env_vars e v of
        None \<Rightarrow> (Inl NameError, e)
      | Some r \<Rightarrow> (Inr [], e\<lparr>env_vars := (env_vars e)(w \<mapsto> r)\<rparr>))"
| "exec_stmt e (Print_next v) =
     (case env_vars e v of
        None \<Rightarrow> (Inl NameError, e)
      | Some r \<Rightarrow>
          (case env_heap e r of
             None \<Rightarrow> (Inl NameError, e)
           | Some s \<Rightarrow>
               (case Aleat_next s of
                  (Inl err, s') \<Rightarrow> (Inl err, e\<lparr>env_heap := (env_heap e)(r \<mapsto> s')\<rparr>)
                | (Inr x, s') \<Rightarrow> (Inr [x], e\<lparr>env_heap := (env_heap e)(r \<mapsto> s')\<rparr>))))"
| "exec_stmt e (Reseed v x0) =
     (case env_vars e v of
        None \<Rightarrow> (Inl NameError, e)
      | Some r \<Rightarrow>
          (case env_heap e r of
             None \<Rightarrow> (Inl NameError, e)
           | Some s \<Rightarrow> (Inr [], e\<lparr>env_heap := (env_heap e)(r \<mapsto> Aleat_call s x0)\<rparr>)))"

text \<open>A program runs its statements in order; an exception ends it.\<close>

fun exec_prog :: "py_env \<Rightarrow> stmt list \<Rightarrow> int list py_result \<times> py_env" where
  "exec_prog e [] = (Inr [], e)"
| "exec_prog e (st # sts) = py_then (exec_stmt e st) (\<lambda>e'. exec_prog e' sts)"

section \<open>What a sequence of pulls does to the store\<close>

text \<open>
  An instance after \<open>k\<close> successful pulls, and the number of pulls a list of names makes
  on reference \<open>r\<close>.
\<close>

definition Aleat_pulled :: "nat \<Rightarrow> Aleat \<Rightarrow> Aleat" where
  "Aleat_pulled k s = s\<lparr>self_x := (lcg_fun (self_m s) (self_a s) (self_c s) ^^ k) (self_x s)\<rparr>"

definition pulls :: "py_env \<Rightarrow> string list \<Rightarrow> nat \<Rightarrow> nat" where
  "pulls e names r = length (filter (\<lambda>u. env_vars e u = Some r) names)"

text \<open>
  The value the \<open>i\<close>-th \<open>print(next(names ! i))\<close> prints, by the specification: element
  \<open>k\<close> of the stream of the object the name refers to, \<open>k\<close> the number of earlier pulls
  on the same object, through any of its names.
\<close>

definition pulled_value :: "py_env \<Rightarrow> string list \<Rightarrow> nat \<Rightarrow> int" where
  "pulled_value e names i =
     (case env_vars e (names ! i) of
        None \<Rightarrow> 0
      | Some r \<Rightarrow> (case env_heap e r of
                    None \<Rightarrow> 0
                  | Some s \<Rightarrow> Aleat_values s !! pulls e (take i names) r))"

lemma Aleat_pulled_0 [simp]: "Aleat_pulled 0 s = s"
  by (simp add: Aleat_pulled_def)

lemma Aleat_pulled_params [simp]:
  "self_m (Aleat_pulled k s) = self_m s" "self_a (Aleat_pulled k s) = self_a s"
  "self_c (Aleat_pulled k s) = self_c s"
  by (simp_all add: Aleat_pulled_def)

lemma Aleat_next_pulled:
  "self_m s \<noteq> 0 \<Longrightarrow>
   Aleat_next (Aleat_pulled k s) = (Inr (Aleat_values s !! k), Aleat_pulled (Suc k) s)"
  by (simp add: Aleat_next_nonzero Aleat_pulled_def Aleat_values_def lcg_orbit_snth)

lemma pulls_snoc:
  "pulls e (names @ [u]) r = pulls e names r + (if env_vars e u = Some r then 1 else 0)"
  by (simp add: pulls_def)

lemma exec_prog_append:
  "exec_prog e (p @ q) = py_then (exec_prog e p) (\<lambda>e'. exec_prog e' q)"
proof (induction p arbitrary: e)
  case Nil
  then show ?case by (simp add: py_then_def py_append_Nil split: prod.split sum.split)
next
  case (Cons st p)
  then show ?case
    by (simp add: py_then_def py_append_def split: prod.split sum.split)
qed

lemma pulled_value_snoc:
  "i < length names \<Longrightarrow> pulled_value e (names @ [u]) i = pulled_value e names i"
  by (simp add: pulled_value_def nth_append split: option.split)

lemma pulled_value_last:
  "env_vars e u = Some r \<Longrightarrow> env_heap e r = Some s \<Longrightarrow>
   pulled_value e (names @ [u]) (length names) = Aleat_values s !! pulls e names r"
  by (simp add: pulled_value_def)

section \<open>Properties of client programs\<close>

text \<open>
  C16 (safety: aliasing and independence). In any sequence of \<open>print(next(v))\<close> over
  names bound to instances with non-zero moduli, the \<open>i\<close>-th printed value is element
  \<open>k\<close> of the stream of the object the name refers to, where \<open>k\<close> counts the earlier
  pulls on that same object through any of its names; afterwards each object has moved
  on by exactly its own number of pulls. Names made by \<open>iter\<close> share one stream;
  distinct objects do not interfere.
\<close>

theorem exec_prog_pulls:
  assumes "\<forall>u \<in> set names. \<exists>r s. env_vars e u = Some r \<and> env_heap e r = Some s \<and> self_m s \<noteq> 0"
  shows "exec_prog e (map Print_next names) =
           (Inr (map (pulled_value e names) [0..<length names]),
            e\<lparr>env_heap := (\<lambda>r. map_option (Aleat_pulled (pulls e names r)) (env_heap e r))\<rparr>)"
  using assms
proof (induction names rule: rev_induct)
  case Nil
  then show ?case by (simp add: pulls_def option.map_ident)
next
  case (snoc u names)
  let ?H = "\<lambda>names r. map_option (Aleat_pulled (pulls e names r)) (env_heap e r)"
  let ?e1 = "e\<lparr>env_heap := ?H names\<rparr>"
  from snoc.prems obtain r s where u: "env_vars e u = Some r" "env_heap e r = Some s"
    and m: "self_m s \<noteq> 0" by auto
  have IH: "exec_prog e (map Print_next names) =
              (Inr (map (pulled_value e names) [0..<length names]), ?e1)"
    using snoc.IH snoc.prems by simp
  have step: "exec_stmt ?e1 (Print_next u) =
                (Inr [Aleat_values s !! pulls e names r],
                 ?e1\<lparr>env_heap := (?H names)(r \<mapsto> Aleat_pulled (Suc (pulls e names r)) s)\<rparr>)"
    using u m by (simp add: Aleat_next_pulled)
  have heap: "(?H names)(r \<mapsto> Aleat_pulled (Suc (pulls e names r)) s) = ?H (names @ [u])"
    using u by (auto simp: pulls_snoc)
  have vals: "map (pulled_value e names) [0..<length names] @ [Aleat_values s !! pulls e names r] =
              map (pulled_value e (names @ [u])) [0..<length (names @ [u])]"
    using u by (simp add: pulled_value_snoc pulled_value_last)
  show ?case
    using IH step heap vals
    by (simp add: exec_prog_append py_then_def py_append_def)
qed

theorem exec_prog_pulls_witness:
  "env_vars \<lparr>env_vars = [''rand'' \<mapsto> 0, ''it'' \<mapsto> 0, ''other'' \<mapsto> 1],
             env_heap = [0 \<mapsto> Aleat_init (Some 32) (Some 9) (Some 13) (Some 11),
                         1 \<mapsto> Aleat_init (Some 32) (Some 9) (Some 13) (Some 11)],
             env_next = 2\<rparr> ''it'' = Some 0 \<and>
   fst (exec_prog \<lparr>env_vars = [''rand'' \<mapsto> 0, ''it'' \<mapsto> 0, ''other'' \<mapsto> 1],
                   env_heap = [0 \<mapsto> Aleat_init (Some 32) (Some 9) (Some 13) (Some 11),
                               1 \<mapsto> Aleat_init (Some 32) (Some 9) (Some 13) (Some 11)],
                   env_next = 2\<rparr>
          (map Print_next [''rand'', ''it'', ''other'', ''rand''])) = Inr [16, 29, 16, 18]"
proof -
  let ?e = "\<lparr>env_vars = [''rand'' \<mapsto> 0, ''it'' \<mapsto> 0, ''other'' \<mapsto> 1],
             env_heap = [0 \<mapsto> Aleat_init (Some 32) (Some 9) (Some 13) (Some 11),
                         1 \<mapsto> Aleat_init (Some 32) (Some 9) (Some 13) (Some 11)],
             env_next = 2\<rparr>"
  have h: "\<forall>u \<in> set [''rand'', ''it'', ''other'', ''rand''].
      \<exists>r s. env_vars ?e u = Some r \<and> env_heap ?e r = Some s \<and> self_m s \<noteq> 0"
    by (simp add: Aleat_init_def)
  have "map (pulled_value ?e [''rand'', ''it'', ''other'', ''rand'']) [0..<length [''rand'', ''it'', ''other'', ''rand'']]
        = [16, 29, 16, 18]"
    by (simp add: pulled_value_def pulls_def Aleat_values_def Aleat_init_def lcg_orbit_snth
        lcg_fun_def upt_rec numeral_eq_Suc del: snth.simps)
  with h exec_prog_pulls [OF h] show ?thesis by simp
qed

end
