(* ===== verification/LCG_Period.thy ===== *)
theory LCG_Period
  imports LCG_Engine
begin

text \<open>
  The period of the recurrence for a power-of-two modulus, the case of the module's
  default \<open>m = 2^48\<close>. With \<open>m = 2^k\<close>, \<open>a mod 4 = 1\<close> and \<open>c\<close> odd (the
  Hull--Dobell conditions for such moduli), the emitted values repeat with period
  exactly \<open>2^k\<close> from every seed. The proof goes through the closed form
  \<open>f^n(x) = a^n x + c (1 + a + \<dots> + a^(n-1)) mod m\<close>. The point \<open>y\<close> returns after
  \<open>n\<close> steps exactly when \<open>2^k\<close> divides \<open>S(n) ((a - 1) y + c)\<close>, where
  \<open>S(n) = 1 + a + \<dots> + a^(n-1)\<close>; the second factor is odd, and the power of two
  dividing \<open>S(n)\<close> is the one dividing \<open>n\<close>.
\<close>

section \<open>Closed form of the iterates\<close>

lemma sum_pow_Suc: "(\<Sum>i<Suc n. a ^ i) = 1 + a * (\<Sum>i<n. a ^ i :: int)"
  by (subst sum.lessThan_Suc_shift) (simp add: sum_distrib_left)

lemma lcg_fun_funpow_mod:
  "(lcg_fun m a c ^^ n) x mod m = (a ^ n * x + c * (\<Sum>i<n. a ^ i)) mod m"
proof (induction n)
  case 0
  show ?case by simp
next
  case (Suc n)
  let ?y = "(lcg_fun m a c ^^ n) x"
  have "(lcg_fun m a c ^^ Suc n) x mod m = (a * ?y + c) mod m"
    by (simp add: lcg_fun_def)
  also have "\<dots> = (a * (?y mod m) + c) mod m"
    by (metis mod_add_left_eq mod_mult_right_eq)
  also have "\<dots> = (a * ((a ^ n * x + c * (\<Sum>i<n. a ^ i)) mod m) + c) mod m"
    by (simp only: Suc.IH)
  also have "\<dots> = (a * (a ^ n * x + c * (\<Sum>i<n. a ^ i)) + c) mod m"
    by (metis mod_add_left_eq mod_mult_right_eq)
  also have "\<dots> = (a ^ Suc n * x + c * (\<Sum>i<Suc n. a ^ i)) mod m"
    by (simp only: sum_pow_Suc) (simp add: algebra_simps)
  finally show ?case .
qed

section \<open>The power of two dividing the geometric sum\<close>

lemma even_sum_pow_iff:
  assumes "odd a"
  shows "even (\<Sum>i<n. a ^ i :: int) \<longleftrightarrow> even n"
proof (induction n)
  case 0
  show ?case by simp
next
  case (Suc n)
  have "(\<Sum>i<Suc n. a ^ i) = (\<Sum>i<n. a ^ i) + a ^ n" by simp
  with Suc.IH assms show ?case by simp
qed

lemma sum_pow_add:
  "(\<Sum>i<n + k. a ^ i :: int) = (\<Sum>i<n. a ^ i) + a ^ n * (\<Sum>i<k. a ^ i)"
  by (induction k) (simp_all add: power_add algebra_simps)

lemma sum_pow_double:
  "(\<Sum>i<2 * n. a ^ i :: int) = (\<Sum>i<n. a ^ i) * (1 + a ^ n)"
proof -
  have "(\<Sum>i<2 * n. a ^ i :: int) = (\<Sum>i<n + n. a ^ i)"
    by (simp only: mult_2)
  also have "\<dots> = (\<Sum>i<n. a ^ i) + a ^ n * (\<Sum>i<n. a ^ i)"
    by (rule sum_pow_add)
  finally show ?thesis by (simp add: algebra_simps)
qed

lemma pow2_dvd_odd_iff:
  fixes x :: "'a::semiring_parity"
  assumes "odd x"
  shows "2 ^ j dvd x \<longleftrightarrow> j = 0"
proof (cases j)
  case (Suc i)
  have "\<not> 2 * 2 ^ i dvd x"
    using assms dvd_mult_left by blast
  with Suc show ?thesis by simp
qed simp

lemma mod_4_eq_2_split:
  assumes "(x::int) mod 4 = 2"
  obtains q where "x = 2 * q" and "odd q"
proof
  show "x = 2 * (x div 2)" using assms by presburger
  show "odd (x div 2)" using assms by presburger
qed

lemma pow2_dvd_sum_pow_iff:
  assumes a: "a mod 4 = 1"
  shows "(2::int) ^ j dvd (\<Sum>i<n. a ^ i) \<longleftrightarrow> (2::nat) ^ j dvd n"
proof (induction n arbitrary: j rule: less_induct)
  case (less n)
  have odd_a: "odd a"
    using a by presburger
  show ?case
  proof (cases "even n")
    case False
    then have "odd (\<Sum>i<n. a ^ i)"
      using even_sum_pow_iff [OF odd_a] by blast
    with False show ?thesis by (simp add: pow2_dvd_odd_iff)
  next
    case True
    show ?thesis
    proof (cases "n = 0")
      case True
      then show ?thesis by simp
    next
      case False
      with \<open>even n\<close> obtain k where n: "n = 2 * k" and "k < n" by (auto elim: evenE)
      have "a ^ k mod 4 = (a mod 4) ^ k mod 4"
        by (simp add: power_mod)
      then have "a ^ k mod 4 = 1"
        using a by simp
      then have "(1 + a ^ k) mod 4 = 2"
        by presburger
      then obtain q where q: "1 + a ^ k = 2 * q" and "odd q"
        by (rule mod_4_eq_2_split)
      then have cop: "coprime ((2::int) ^ j) q" by simp
      have S: "(\<Sum>i<n. a ^ i) = (2 * (\<Sum>i<k. a ^ i)) * q"
        by (simp add: n sum_pow_double q)
      show ?thesis
      proof (cases j)
        case 0
        then show ?thesis by simp
      next
        case (Suc i)
        have "(2::int) ^ j dvd (\<Sum>i<n. a ^ i) \<longleftrightarrow> 2 ^ j dvd 2 * (\<Sum>i<k. a ^ i)"
          unfolding S using cop by (rule coprime_dvd_mult_left_iff)
        also have "\<dots> \<longleftrightarrow> 2 ^ i dvd (\<Sum>i<k. a ^ i)"
          by (simp add: Suc)
        also have "\<dots> \<longleftrightarrow> (2::nat) ^ i dvd k"
          using less.IH [OF \<open>k < n\<close>] .
        also have "\<dots> \<longleftrightarrow> (2::nat) ^ j dvd n"
          by (simp add: Suc n)
        finally show ?thesis .
      qed
    qed
  qed
qed

section \<open>Exact period\<close>

lemma lcg_fun_funpow_return:
  assumes m: "m = 2 ^ k" and a: "a mod 4 = 1" and c: "odd c" and y: "0 \<le> y" "y < m"
  shows "(lcg_fun m a c ^^ n) y mod m = y \<longleftrightarrow> (2::nat) ^ k dvd n"
proof -
  let ?S = "\<Sum>i<n. a ^ i"
  have pow: "a ^ n = (a - 1) * ?S + 1"
    using power_diff_1_eq [of a n] by (simp add: algebra_simps)
  have odd: "odd ((a - 1) * y + c)"
    using a c by presburger
  have "(lcg_fun m a c ^^ n) y mod m = y \<longleftrightarrow> (a ^ n * y + c * ?S) mod m = y mod m"
    using y by (simp add: lcg_fun_funpow_mod)
  also have "\<dots> \<longleftrightarrow> m dvd (a ^ n * y + c * ?S - y)"
    by (rule mod_eq_dvd_iff)
  also have "a ^ n * y + c * ?S - y = ?S * ((a - 1) * y + c)"
    by (simp add: pow algebra_simps)
  also have "m dvd ?S * ((a - 1) * y + c) \<longleftrightarrow> m dvd ?S"
    using odd m by (intro coprime_dvd_mult_left_iff) simp
  also have "\<dots> \<longleftrightarrow> (2::nat) ^ k dvd n"
    using m pow2_dvd_sum_pow_iff [OF a] by simp
  finally show ?thesis .
qed

lemma lcg_fun_funpow_reduced:
  "0 < n \<Longrightarrow> (lcg_fun m a c ^^ n) y mod m = (lcg_fun m a c ^^ n) y"
  by (cases n) (simp_all add: lcg_fun_def)

lemma lcg_orbit_snth_add: "lcg_orbit m a c x0 !! (i + n) = (lcg_fun m a c ^^ n) (lcg_orbit m a c x0 !! i)"
proof -
  have "Suc (i + n) = n + Suc i" by simp
  then show ?thesis by (simp only: lcg_orbit_snth funpow_add o_apply)
qed

lemma lcg_orbit_period_pow2:
  assumes m: "m = 2 ^ k" and a: "a mod 4 = 1" and c: "odd c"
  shows "lcg_orbit m a c x0 !! (i + n) = lcg_orbit m a c x0 !! i \<longleftrightarrow> (2::nat) ^ k dvd n"
proof (cases "n = 0")
  case True
  then show ?thesis by simp
next
  case False
  let ?y = "lcg_orbit m a c x0 !! i"
  have "in_py_range m ?y"
    using m by (simp add: lcg_orbit_in_py_range)
  then have y: "0 \<le> ?y" "?y < m"
    using m by (simp_all add: in_py_range_pos)
  have "lcg_orbit m a c x0 !! (i + n) = (lcg_fun m a c ^^ n) ?y mod m"
    using False by (simp add: lcg_orbit_snth_add lcg_fun_funpow_reduced)
  with lcg_fun_funpow_return [OF m a c y, of n] show ?thesis by simp
qed

section \<open>Every residue is reached\<close>

lemma lcg_orbit_stake_distinct_pow2:
  assumes m: "m = 2 ^ k" and a: "a mod 4 = 1" and c: "odd c"
  shows "distinct (stake (2 ^ k) (lcg_orbit m a c x0))"
proof -
  have ne: "lcg_orbit m a c x0 !! i \<noteq> lcg_orbit m a c x0 !! j" if "i < j" "j < 2 ^ k" for i j
  proof -
    have "\<not> (2::nat) ^ k dvd (j - i)"
      using nat_dvd_not_less [of "j - i" "2 ^ k"] that by simp
    then show ?thesis
      using lcg_orbit_period_pow2 [OF m a c, of x0 i "j - i"] that by simp
  qed
  show ?thesis
    unfolding distinct_conv_nth
    by (auto simp: neq_iff dest: ne ne [symmetric])
qed

lemma lcg_orbit_covers_pow2:
  assumes m: "m = 2 ^ k" and a: "a mod 4 = 1" and c: "odd c" and y: "0 \<le> y" "y < m"
  shows "\<exists>n < 2 ^ k. lcg_orbit m a c x0 !! n = y"
proof -
  let ?S = "set (stake (2 ^ k) (lcg_orbit m a c x0))"
  have sub: "?S \<subseteq> {0..<m}"
    using lcg_orbit_in_py_range [of m a c x0] m
    by (auto simp: in_set_conv_nth in_py_range_pos)
  have "card ?S = 2 ^ k"
    using distinct_card [OF lcg_orbit_stake_distinct_pow2 [OF m a c]] by simp
  also have "\<dots> = card {0..<m}"
    using m by simp
  finally have "?S = {0..<m}"
    using sub by (intro card_subset_eq) simp_all
  with y have "y \<in> ?S" by simp
  then show ?thesis
    by (auto simp: in_set_conv_nth)
qed

end
