(* ===== verification/Aleat_Gen_Body.thy ===== *)
theory Aleat_Gen_Body
  imports Aleat_Generator
begin

text \<open>
  The body of the generator function \<open>aleat\<close> (lines 97--101) line by line. Each line
  is a program point, the frame holds the locals, and the \<open>while True\<close> loop is run by
  \<open>body_exec\<close>, a \<open>partial_function (option)\<close> that steps until the body reaches
  the \<open>yield\<close> or raises. \<open>None\<close> would be a resumption that never returns. The
  lemmas show that every resumption returns, within one pass of the loop, and that the
  compact model \<open>gen_send\<close> of \<open>Aleat_Generator\<close> is exactly what the line-level
  body does: on every resumption, and so on every session.
\<close>

section \<open>Program points and frame\<close>

text \<open>
  \<open>L97\<close>: \<open>x = x0\<close>. \<open>L98\<close>: \<open>while True:\<close>. \<open>L99\<close>:
  \<open>new_seed = yield (x := (a * x + c) % m)\<close>, the only suspension point.
  \<open>L100\<close>: \<open>if new_seed is not None:\<close>. \<open>L101\<close>: \<open>x = new_seed\<close>.
\<close>

datatype body_pc = L97 | L98 | L99 | L100 | L101

text \<open>
  The locals of the frame. The parameters are bound by the call. \<open>x\<close> is unbound
  (\<open>None\<close>) until line 97 runs. \<open>new_seed\<close> holds the value the last \<open>yield\<close>
  received, Python's \<open>None\<close> as \<open>None\<close>; it is read only at line 100, which is
  reached only after a resumption has assigned it.
\<close>

record body_frame =
  b_m :: int
  b_a :: int
  b_c :: int
  b_x0 :: int
  b_x :: "int option"
  b_new_seed :: "int option"

text \<open>What one line does: go on at another line, suspend at the \<open>yield\<close>, or raise.\<close>

datatype body_event =
    Continue body_pc body_frame
  | Yield int body_frame
  | Raise py_error body_frame

text \<open>
  One line. \<open>while True\<close> tests a constant, so line 98 always enters the body. At
  line 99 the walrus assigns \<open>x\<close> only when \<open>%\<close> returns; reading \<open>x\<close> unbound
  would raise \<open>UnboundLocalError\<close>.
\<close>

fun body_step :: "body_pc \<Rightarrow> body_frame \<Rightarrow> body_event" where
  "body_step L97 f = Continue L98 (f\<lparr>b_x := Some (b_x0 f)\<rparr>)"
| "body_step L98 f = Continue L99 f"
| "body_step L99 f =
     (case b_x f of
        None \<Rightarrow> Raise UnboundLocalError f
      | Some x \<Rightarrow>
          (case lcg (b_m f) (b_a f) (b_c f) x of
             Inl e \<Rightarrow> Raise e f
           | Inr v \<Rightarrow> Yield v (f\<lparr>b_x := Some v\<rparr>)))"
| "body_step L100 f = (case b_new_seed f of None \<Rightarrow> Continue L98 f | Some _ \<Rightarrow> Continue L101 f)"
| "body_step L101 f = Continue L98 (f\<lparr>b_x := b_new_seed f\<rparr>)"

text \<open>
  Running the body from a program point until it yields or raises. Nothing in the
  definition bounds the number of lines: that the loop always reaches the \<open>yield\<close> is
  a theorem below.
\<close>

partial_function (option) body_exec :: "body_pc \<Rightarrow> body_frame \<Rightarrow> (int py_result \<times> body_frame) option" where
  "body_exec pc f =
     (case body_step pc f of
        Continue pc' f' \<Rightarrow> body_exec pc' f'
      | Yield v f' \<Rightarrow> Some (Inr v, f')
      | Raise e f' \<Rightarrow> Some (Inl e, f'))"

section \<open>Generator object\<close>

text \<open>
  The generator object: its frame and its state. A suspended generator is always at
  the \<open>yield\<close> of line 99, so no program point needs to be stored.
\<close>

record body_gen =
  bg_frame :: body_frame
  bg_state :: gen_state

definition body_aleat :: "int option \<Rightarrow> int option \<Rightarrow> int option \<Rightarrow> int option \<Rightarrow> body_gen" where
  "body_aleat m a c x0 =
     \<lparr>bg_frame = \<lparr>b_m = kwarg m (2 ^ 48), b_a = kwarg a 25214903917, b_c = kwarg c 11,
                  b_x0 = kwarg x0 1212121, b_x = None, b_new_seed = None\<rparr>,
      bg_state = GEN_CREATED\<rparr>"

text \<open>The generator after the body has run: suspended at a \<open>yield\<close>, or finished by an exception.\<close>

definition body_finish :: "(int py_result \<times> body_frame) option \<Rightarrow> (int py_result \<times> body_gen) option" where
  "body_finish r =
     map_option (\<lambda>(res, f). (res, \<lparr>bg_frame = f,
        bg_state = (case res of Inl _ \<Rightarrow> GEN_CLOSED | Inr _ \<Rightarrow> GEN_SUSPENDED)\<rparr>)) r"

text \<open>
  \<open>gen.send(v)\<close>. An unstarted generator refuses a value other than \<open>None\<close> and
  otherwise starts at line 97. A suspended one resumes at its \<open>yield\<close>, whose value
  \<open>v\<close> is assigned to \<open>new_seed\<close>, and goes on at line 100. A finished one raises
  \<open>StopIteration\<close>.
\<close>

definition body_send :: "body_gen \<Rightarrow> int option \<Rightarrow> (int py_result \<times> body_gen) option" where
  "body_send g v =
     (case bg_state g of
        GEN_CREATED \<Rightarrow>
          (case v of None \<Rightarrow> body_finish (body_exec L97 (bg_frame g)) | Some _ \<Rightarrow> Some (Inl TypeError, g))
      | GEN_SUSPENDED \<Rightarrow> body_finish (body_exec L100 ((bg_frame g)\<lparr>b_new_seed := v\<rparr>))
      | GEN_CLOSED \<Rightarrow> Some (Inl StopIteration, g))"

text \<open>A session of pulls and sends, as in \<open>gen_run\<close>; an exception ends it.\<close>

fun body_run :: "body_gen \<Rightarrow> gen_op list \<Rightarrow> (int list py_result \<times> body_gen) option" where
  "body_run g [] = Some (Inr [], g)"
| "body_run g (op # ops) =
     (case body_send g (gen_op_arg op) of
        None \<Rightarrow> None
      | Some (Inl e, g') \<Rightarrow> Some (Inl e, g')
      | Some (Inr v, g') \<Rightarrow> map_option (py_cons v) (body_run g' ops))"

section \<open>Correspondence with the compact model\<close>

text \<open>
  The frame the compact model keeps: the parameters, and \<open>x\<close>, which is \<open>x0\<close> before
  line 97 has run.
\<close>

definition body_abs :: "body_gen \<Rightarrow> aleat_gen" where
  "body_abs g =
     \<lparr>g_m = b_m (bg_frame g), g_a = b_a (bg_frame g), g_c = b_c (bg_frame g),
      g_x = (case b_x (bg_frame g) of None \<Rightarrow> b_x0 (bg_frame g) | Some x \<Rightarrow> x),
      g_state = bg_state g\<rparr>"

text \<open>\<open>x\<close> is unbound exactly before the start.\<close>

definition body_inv :: "body_gen \<Rightarrow> bool" where
  "body_inv g \<longleftrightarrow> (b_x (bg_frame g) = None \<longleftrightarrow> bg_state g = GEN_CREATED)"

section \<open>One pass of the loop\<close>

text \<open>
  Every program point reaches line 99 within three lines, and line 99 yields or raises:
  the equations of \<open>body_exec\<close> for each entry point, each one unfolding of the loop.
\<close>

lemma body_exec_L99:
  "body_exec L99 f =
     (case b_x f of
        None \<Rightarrow> Some (Inl UnboundLocalError, f)
      | Some x \<Rightarrow>
          (case lcg (b_m f) (b_a f) (b_c f) x of
             Inl e \<Rightarrow> Some (Inl e, f)
           | Inr v \<Rightarrow> Some (Inr v, f\<lparr>b_x := Some v\<rparr>)))"
  by (subst body_exec.simps) (simp split: option.split sum.split)

lemma body_exec_L98: "body_exec L98 f = body_exec L99 f"
  by (subst body_exec.simps) simp

lemma body_exec_L97: "body_exec L97 f = body_exec L99 (f\<lparr>b_x := Some (b_x0 f)\<rparr>)"
  by (subst body_exec.simps) (simp add: body_exec_L98)

lemma body_exec_L101: "body_exec L101 f = body_exec L99 (f\<lparr>b_x := b_new_seed f\<rparr>)"
  by (subst body_exec.simps) (simp add: body_exec_L98)

lemma body_exec_L100:
  "body_exec L100 f = body_exec L99 (case b_new_seed f of None \<Rightarrow> f | Some s \<Rightarrow> f\<lparr>b_x := Some s\<rparr>)"
  by (subst body_exec.simps) (simp add: body_exec_L98 body_exec_L101 split: option.split)

lemmas body_exec_entry = body_exec_L97 body_exec_L98 body_exec_L100 body_exec_L101

lemma body_exec_L99_Some: "\<exists>r. body_exec L99 f = Some r"
  by (simp add: body_exec_L99 split: option.split sum.split)

text \<open>The compact model's pass of the loop, read off the line-level body.\<close>

lemma body_finish_L99:
  assumes "b_x f = Some (g_x G)" and "g_m G = b_m f" and "g_a G = b_a f" and "g_c G = b_c f"
  shows "map_option (apsnd body_abs) (body_finish (body_exec L99 f)) = Some (gen_loop G)"
  using assms by (cases G) (simp add: body_exec_L99 body_finish_def gen_loop_def body_abs_def
      split: sum.split)

lemma body_abs_fields [simp]:
  "g_m (body_abs g) = b_m (bg_frame g)" "g_a (body_abs g) = b_a (bg_frame g)"
  "g_c (body_abs g) = b_c (bg_frame g)" "g_state (body_abs g) = bg_state g"
  "b_x (bg_frame g) = Some x \<Longrightarrow> g_x (body_abs g) = x"
  "b_x (bg_frame g) = None \<Longrightarrow> g_x (body_abs g) = b_x0 (bg_frame g)"
  by (simp_all add: body_abs_def)

lemma body_send_abs:
  assumes "body_inv g"
  shows "map_option (apsnd body_abs) (body_send g v) = Some (gen_send (body_abs g) v)"
proof (cases "bg_state g")
  case GEN_CREATED
  with assms have x: "b_x (bg_frame g) = None" by (simp add: body_inv_def)
  show ?thesis
  proof (cases v)
    case None
    let ?f = "(bg_frame g)\<lparr>b_x := Some (b_x0 (bg_frame g))\<rparr>"
    have "map_option (apsnd body_abs) (body_send g v) =
          map_option (apsnd body_abs) (body_finish (body_exec L99 ?f))"
      using GEN_CREATED None by (simp add: body_send_def body_exec_L97)
    also have "\<dots> = Some (gen_loop (body_abs g))"
      using x by (intro body_finish_L99) simp_all
    finally show ?thesis
      using GEN_CREATED None by (simp add: gen_send_def)
  next
    case (Some s)
    with GEN_CREATED show ?thesis
      by (simp add: body_send_def gen_send_def)
  qed
next
  case GEN_SUSPENDED
  with assms obtain x where x: "b_x (bg_frame g) = Some x" by (auto simp: body_inv_def)
  let ?g = "case v of None \<Rightarrow> body_abs g | Some s \<Rightarrow> (body_abs g)\<lparr>g_x := s\<rparr>"
  let ?f = "case v of None \<Rightarrow> (bg_frame g)\<lparr>b_new_seed := v\<rparr>
            | Some s \<Rightarrow> (bg_frame g)\<lparr>b_new_seed := v, b_x := Some s\<rparr>"
  have "map_option (apsnd body_abs) (body_send g v) =
        map_option (apsnd body_abs) (body_finish (body_exec L99 ?f))"
    using GEN_SUSPENDED by (cases v) (simp_all add: body_send_def body_exec_L100)
  also have "\<dots> = Some (gen_loop ?g)"
    using x by (intro body_finish_L99) (simp_all split: option.split)
  finally show ?thesis
    using GEN_SUSPENDED by (cases v) (simp_all add: gen_send_def)
next
  case GEN_CLOSED
  then show ?thesis by (simp add: body_send_def gen_send_def)
qed

lemma body_finish_L99_inv:
  "b_x f \<noteq> None \<Longrightarrow> body_finish (body_exec L99 f) = Some (r, g') \<Longrightarrow> body_inv g'"
  by (auto simp: body_exec_L99 body_finish_def body_inv_def split: option.splits sum.splits)

lemma body_send_inv:
  assumes "body_inv g" and "body_send g v = Some (r, g')"
  shows "body_inv g'"
proof (cases "bg_state g")
  case GEN_CREATED
  then show ?thesis
    using assms by (cases v) (auto simp: body_send_def body_exec_L97 dest!: body_finish_L99_inv [rotated])
next
  case GEN_SUSPENDED
  with assms(1) have "b_x (bg_frame g) \<noteq> None" by (simp add: body_inv_def)
  with GEN_SUSPENDED show ?thesis
    using assms(2) by (cases v) (auto simp: body_send_def body_exec_L100 dest!: body_finish_L99_inv [rotated])
next
  case GEN_CLOSED
  then show ?thesis using assms by (simp add: body_send_def)
qed

lemma body_send_Some: "\<exists>r. body_send g v = Some r"
  by (auto simp: body_send_def body_exec_L97 body_exec_L100 body_exec_L99 body_finish_def
      split: gen_state.split option.split sum.split)

lemma body_aleat_abs [simp]: "body_abs (body_aleat m a c x0) = aleat m a c x0"
  and body_aleat_inv [simp]: "body_inv (body_aleat m a c x0)"
  by (simp_all add: body_abs_def body_aleat_def aleat_def body_inv_def)

lemma body_run_abs:
  "body_inv g \<Longrightarrow> map_option (apsnd body_abs) (body_run g ops) = Some (gen_run (body_abs g) ops)"
proof (induction ops arbitrary: g)
  case Nil
  then show ?case by simp
next
  case (Cons op ops)
  obtain r g' where s: "body_send g (gen_op_arg op) = Some (r, g')"
    using body_send_Some by fastforce
  have gs: "gen_send (body_abs g) (gen_op_arg op) = (r, body_abs g')"
    using body_send_abs [OF Cons.prems, of "gen_op_arg op"] s by simp
  have "body_inv g'" using body_send_inv [OF Cons.prems s] .
  then obtain rr where rr: "body_run g' ops = Some rr" "apsnd body_abs rr = gen_run (body_abs g') ops"
    using Cons.IH by fastforce
  show ?case
    using s gs rr by (cases r) (simp_all add: py_simps)
qed

section \<open>Properties of the line-level body\<close>

text \<open>
  C20 (termination). The \<open>while True\<close> loop never runs away: every session of
  \<open>next\<close> and \<open>send\<close> calls on any generator object returns, each resumption reaching
  the \<open>yield\<close> of line 99, or an exception, within one pass of the loop.
\<close>

theorem body_run_returns: "\<exists>r. body_run g ops = Some r"
proof (induction ops arbitrary: g)
  case (Cons op ops)
  obtain r g' where "body_send g (gen_op_arg op) = Some (r, g')"
    using body_send_Some by fastforce
  with Cons.IH [of g'] show ?case by (cases r) auto
qed simp

text \<open>
  C21 (equivalence). The compact model of the generator is the line-level body: for
  every choice of keyword arguments and every session of \<open>next\<close> and \<open>send\<close>, the
  line-level body returns, with the values, exception and frame that \<open>gen_run\<close>
  computes from \<open>aleat\<close>.
\<close>

theorem body_run_refines_gen_run:
  "map_option (apsnd body_abs) (body_run (body_aleat m a c x0) ops) =
   Some (gen_run (aleat m a c x0) ops)"
  using body_run_abs [of "body_aleat m a c x0" ops] by simp

end
