(* ===== verification/Py_Session.thy ===== *)
theory Py_Session
  imports Aleat_Class Aleat_Generator
begin

text \<open>
  Client sessions that use both interfaces of the module, in the statements the two
  docstrings are written in: construction of an \<open>Aleat\<close> instance or of an \<open>aleat\<close>
  generator, \<open>iter\<close>, \<open>print(next(v))\<close>, the expression statements \<open>v(x0)\<close> and
  \<open>v.send(x)\<close>, whose value the interactive prompt echoes unless it is \<open>None\<close>, and
  \<open>for _ in range(n)\<close> loops. Variables hold references into a store of objects of
  either kind. A static check \<open>tc_ps\<close> assigns each variable the kind of its object,
  and for a generator whether it has surely started; the lemmas show that a checked
  session never raises (type soundness), and that a loop of pulls prints the
  specification stream of the object, whichever its kind.
\<close>

section \<open>Objects and their methods\<close>

datatype py_obj = OAleat Aleat | OGen aleat_gen

text \<open>\<open>next(o)\<close>: \<open>Aleat.__next__\<close>, or \<open>send(None)\<close> on a generator.\<close>

fun obj_next :: "py_obj \<Rightarrow> int py_result \<times> py_obj" where
  "obj_next (OAleat s) = (case Aleat_next s of (r, s') \<Rightarrow> (r, OAleat s'))"
| "obj_next (OGen g) = (case gen_send g None of (r, g') \<Rightarrow> (r, OGen g'))"

text \<open>
  \<open>o(x0)\<close>: \<open>Aleat.__call__\<close>, which returns \<open>None\<close>; a generator object is not
  callable and raises \<open>TypeError\<close>.
\<close>

fun obj_call :: "py_obj \<Rightarrow> int \<Rightarrow> unit py_result \<times> py_obj" where
  "obj_call (OAleat s) x0 = (Inr (), OAleat (Aleat_call s x0))"
| "obj_call (OGen g) x0 = (Inl TypeError, OGen g)"

text \<open>\<open>o.send(x)\<close>: the generator's \<open>send\<close>; an \<open>Aleat\<close> instance has no attribute \<open>send\<close>.\<close>

fun obj_send :: "py_obj \<Rightarrow> int \<Rightarrow> int py_result \<times> py_obj" where
  "obj_send (OAleat s) x = (Inl AttributeError, OAleat s)"
| "obj_send (OGen g) x = (case gen_send g (Some x) of (r, g') \<Rightarrow> (r, OGen g'))"

text \<open>The values an object will produce under plain pulls, by the specification.\<close>

fun obj_values :: "py_obj \<Rightarrow> int stream" where
  "obj_values (OAleat s) = Aleat_values s"
| "obj_values (OGen g) = gen_values g"

section \<open>Statements and sessions\<close>

datatype simple =
    Let_Aleat string "int option" "int option" "int option" "int option"
      \<comment> \<open>\<open>v = Aleat(m=.., a=.., c=.., x0=..)\<close>\<close>
  | Let_aleat string "int option" "int option" "int option" "int option"
      \<comment> \<open>\<open>v = aleat(m=.., a=.., c=.., x0=..)\<close>\<close>
  | Let_iter string string \<comment> \<open>\<open>w = iter(v)\<close>\<close>
  | Print_next string \<comment> \<open>\<open>print(next(v))\<close>\<close>
  | Call_expr string int \<comment> \<open>\<open>v(x0)\<close> at the prompt\<close>
  | Send_expr string int \<comment> \<open>\<open>v.send(x)\<close> at the prompt\<close>

datatype pstmt = Simple simple | For_range nat "pstmt list" \<comment> \<open>\<open>for _ in range(n): body\<close>\<close>

record sess_env =
  s_vars :: "string \<rightharpoonup> nat"
  s_heap :: "nat \<rightharpoonup> py_obj"
  s_next :: nat

definition sess_empty :: sess_env where
  "sess_empty = \<lparr>s_vars = Map.empty, s_heap = Map.empty, s_next = 0\<rparr>"

text \<open>A fresh object bound to a variable.\<close>

definition sess_alloc :: "sess_env \<Rightarrow> string \<Rightarrow> py_obj \<Rightarrow> sess_env" where
  "sess_alloc e v ob =
     e\<lparr>s_vars := (s_vars e)(v \<mapsto> s_next e), s_heap := (s_heap e)(s_next e \<mapsto> ob),
       s_next := Suc (s_next e)\<rparr>"

text \<open>
  A method call on the object a variable refers to: the object's new state is written
  back to the store, also when the method raises. An unbound variable is a
  \<open>NameError\<close>.
\<close>

definition sess_invoke ::
  "sess_env \<Rightarrow> string \<Rightarrow> (py_obj \<Rightarrow> 'a py_result \<times> py_obj) \<Rightarrow> 'a py_result \<times> sess_env" where
  "sess_invoke e v meth =
     (case s_vars e v of
        None \<Rightarrow> (Inl NameError, e)
      | Some r \<Rightarrow>
          (case s_heap e r of
             None \<Rightarrow> (Inl NameError, e)
           | Some ob \<Rightarrow> (case meth ob of (res, ob') \<Rightarrow> (res, e\<lparr>s_heap := (s_heap e)(r \<mapsto> ob')\<rparr>))))"

text \<open>
  One simple statement and the values it prints: \<open>print\<close> prints the pulled value; the
  prompt echoes the value of \<open>v.send(x)\<close> and nothing for the \<open>None\<close> of \<open>v(x0)\<close>.
  Both \<open>__iter__\<close> methods return \<open>self\<close>.
\<close>

fun exec_simple :: "sess_env \<Rightarrow> simple \<Rightarrow> int list py_result \<times> sess_env" where
  "exec_simple e (Let_Aleat v m a c x0) = (Inr [], sess_alloc e v (OAleat (Aleat_init m a c x0)))"
| "exec_simple e (Let_aleat v m a c x0) = (Inr [], sess_alloc e v (OGen (aleat m a c x0)))"
| "exec_simple e (Let_iter w v) =
     (case s_vars e v of
        None \<Rightarrow> (Inl NameError, e)
      | Some r \<Rightarrow> (Inr [], e\<lparr>s_vars := (s_vars e)(w \<mapsto> r)\<rparr>))"
| "exec_simple e (Print_next v) = apfst (map_sum id (\<lambda>x. [x])) (sess_invoke e v obj_next)"
| "exec_simple e (Call_expr v x0) = apfst (map_sum id (\<lambda>_. [])) (sess_invoke e v (\<lambda>ob. obj_call ob x0))"
| "exec_simple e (Send_expr v x) = apfst (map_sum id (\<lambda>y. [y])) (sess_invoke e v (\<lambda>ob. obj_send ob x))"

text \<open>
  The weight of a statement bounds the number of statements it runs: a loop weighs
  its count times its body, so unrolling one iteration makes the program lighter.
\<close>

fun pweight :: "pstmt \<Rightarrow> nat" where
  "pweight (Simple st) = 1"
| "pweight (For_range n body) = Suc n * Suc (sum_list (map pweight body))"

text \<open>
  A session runs its statements in order and stops at the first exception. A loop
  \<open>for _ in range(n)\<close> runs its body \<open>n\<close> times.
\<close>

function exec_ps :: "sess_env \<Rightarrow> pstmt list \<Rightarrow> int list py_result \<times> sess_env" where
  "exec_ps e [] = (Inr [], e)"
| "exec_ps e (Simple st # ss) = py_then (exec_simple e st) (\<lambda>e'. exec_ps e' ss)"
| "exec_ps e (For_range 0 body # ss) = exec_ps e ss"
| "exec_ps e (For_range (Suc n) body # ss) = exec_ps e (body @ For_range n body # ss)"
  by pat_completeness auto
termination
  by (relation "measure (\<lambda>(e, ss). sum_list (map pweight ss))") auto

section \<open>A static check of sessions\<close>

text \<open>
  The kind of object a variable holds: an \<open>Aleat\<close> instance, or a generator, with
  \<open>True\<close> when it has surely been started by a \<open>next\<close> through this name.
\<close>

datatype py_ty = TAleat | TGen bool

type_synonym tyenv = "string \<rightharpoonup> py_ty"

text \<open>The kind after \<open>next\<close>: a generator has started.\<close>

fun next_ty :: "py_ty \<Rightarrow> py_ty" where
  "next_ty TAleat = TAleat"
| "next_ty (TGen _) = TGen True"

text \<open>
  A statement passes the check when the names it reads are bound, every constructor has
  a non-zero modulus, \<open>v(x0)\<close> is applied to an \<open>Aleat\<close> instance only and
  \<open>v.send(x)\<close> to a generator that has started only.
\<close>

fun tc_simple :: "tyenv \<Rightarrow> simple \<Rightarrow> tyenv option" where
  "tc_simple \<Gamma> (Let_Aleat v m a c x0) = (if kwarg m (2 ^ 48) \<noteq> 0 then Some (\<Gamma>(v \<mapsto> TAleat)) else None)"
| "tc_simple \<Gamma> (Let_aleat v m a c x0) = (if kwarg m (2 ^ 48) \<noteq> 0 then Some (\<Gamma>(v \<mapsto> TGen False)) else None)"
| "tc_simple \<Gamma> (Let_iter w v) = map_option (\<lambda>t. \<Gamma>(w \<mapsto> t)) (\<Gamma> v)"
| "tc_simple \<Gamma> (Print_next v) = map_option (\<lambda>t. \<Gamma>(v \<mapsto> next_ty t)) (\<Gamma> v)"
| "tc_simple \<Gamma> (Call_expr v x0) = (if \<Gamma> v = Some TAleat then Some \<Gamma> else None)"
| "tc_simple \<Gamma> (Send_expr v x) = (if \<Gamma> v = Some (TGen True) then Some \<Gamma> else None)"

text \<open>The check of a session follows its execution, unrolling each loop.\<close>

function tc_ps :: "tyenv \<Rightarrow> pstmt list \<Rightarrow> tyenv option" where
  "tc_ps \<Gamma> [] = Some \<Gamma>"
| "tc_ps \<Gamma> (Simple st # ss) = (case tc_simple \<Gamma> st of None \<Rightarrow> None | Some \<Gamma>' \<Rightarrow> tc_ps \<Gamma>' ss)"
| "tc_ps \<Gamma> (For_range 0 body # ss) = tc_ps \<Gamma> ss"
| "tc_ps \<Gamma> (For_range (Suc n) body # ss) = tc_ps \<Gamma> (body @ For_range n body # ss)"
  by pat_completeness auto
termination
  by (relation "measure (\<lambda>(\<Gamma>, ss). sum_list (map pweight ss))") auto

text \<open>
  What an object of a kind satisfies: a non-zero modulus; a generator has not finished,
  and is suspended when it has surely started.
\<close>

fun obj_conforms :: "py_ty \<Rightarrow> py_obj \<Rightarrow> bool" where
  "obj_conforms TAleat (OAleat s) = (self_m s \<noteq> 0)"
| "obj_conforms (TGen b) (OGen g) =
     (g_m g \<noteq> 0 \<and> g_state g \<noteq> GEN_CLOSED \<and> (b \<longrightarrow> g_state g = GEN_SUSPENDED))"
| "obj_conforms _ _ = False"

text \<open>
  A store conforms to the kinds when every checked name refers to an object of its kind,
  and every allocated reference lies below the next fresh one.
\<close>

definition conforms :: "tyenv \<Rightarrow> sess_env \<Rightarrow> bool" where
  "conforms \<Gamma> e \<longleftrightarrow>
     (\<forall>v t. \<Gamma> v = Some t \<longrightarrow>
        (\<exists>r ob. s_vars e v = Some r \<and> s_heap e r = Some ob \<and> obj_conforms t ob)) \<and>
     (\<forall>r \<in> dom (s_heap e). r < s_next e)"

section \<open>Loops of pulls\<close>

text \<open>\<open>n\<close> calls of \<open>next\<close> on one object, stopping at the first exception.\<close>

fun obj_pulls :: "nat \<Rightarrow> py_obj \<Rightarrow> int list py_result \<times> py_obj" where
  "obj_pulls 0 ob = (Inr [], ob)"
| "obj_pulls (Suc n) ob =
     (case obj_next ob of (Inl err, ob') \<Rightarrow> (Inl err, ob') | (Inr x, ob') \<Rightarrow> py_cons x (obj_pulls n ob'))"

lemma obj_pulls_Aleat: "obj_pulls n (OAleat s) = apsnd OAleat (Aleat_run s (replicate n Next))"
proof (induction n arbitrary: s)
  case (Suc n)
  then show ?case
    by (simp add: py_simps split: prod.split sum.split)
qed simp

lemma obj_pulls_gen: "obj_pulls n (OGen g) = apsnd OGen (gen_run g (replicate n GNext))"
proof (induction n arbitrary: g)
  case (Suc n)
  then show ?case
    by (simp add: py_simps split: prod.split sum.split)
qed simp

text \<open>A loop \<open>for _ in range(n): print(next(v))\<close> pulls \<open>n\<close> times from the object of \<open>v\<close>.\<close>

lemma exec_for_print_next:
  assumes "s_vars e v = Some r" and "s_heap e r = Some ob"
  shows "exec_ps e [For_range n [Simple (Print_next v)]] =
           (case obj_pulls n ob of (res, ob') \<Rightarrow> (res, e\<lparr>s_heap := (s_heap e)(r \<mapsto> ob')\<rparr>))"
  using assms
proof (induction n arbitrary: e ob)
  case 0
  then have h: "(s_heap e)(r \<mapsto> ob) = s_heap e" by (simp add: fun_upd_idem)
  show ?case by (simp only: exec_ps.simps obj_pulls.simps prod.case h) simp
next
  case (Suc n)
  obtain res ob1 where nx: "obj_next ob = (res, ob1)" by fastforce
  obtain res2 ob2 where p: "obj_pulls n ob1 = (res2, ob2)" by fastforce
  let ?e1 = "e\<lparr>s_heap := (s_heap e)(r \<mapsto> ob1)\<rparr>"
  have inv: "sess_invoke e v obj_next = (res, ?e1)"
    using Suc.prems nx by (simp add: sess_invoke_def)
  have pre: "s_vars ?e1 v = Some r" "s_heap ?e1 r = Some ob1"
    using Suc.prems by simp_all
  have upd: "?e1\<lparr>s_heap := (s_heap ?e1)(r \<mapsto> ob2)\<rparr> = e\<lparr>s_heap := (s_heap e)(r \<mapsto> ob2)\<rparr>"
    by (cases e) simp
  have IH: "exec_ps ?e1 [For_range n [Simple (Print_next v)]] = (res2, e\<lparr>s_heap := (s_heap e)(r \<mapsto> ob2)\<rparr>)"
    using Suc.IH [OF pre] by (simp only: p prod.case upd)
  show ?case
  proof (cases res)
    case (Inl err)
    with inv nx show ?thesis by (simp add: py_simps fun_upd_def)
  next
    case (Inr x)
    with inv nx IH p show ?thesis
      by (cases res2) (simp_all add: py_simps fun_upd_def)
  qed
qed

section \<open>Lemmas on the check\<close>

text \<open>\<open>ob'\<close> satisfies every kind \<open>ob\<close> satisfies: a method call does not break aliases.\<close>

definition obj_keeps :: "py_obj \<Rightarrow> py_obj \<Rightarrow> bool" where
  "obj_keeps ob ob' \<longleftrightarrow> (\<forall>t. obj_conforms t ob \<longrightarrow> obj_conforms t ob')"

lemma conforms_obj:
  assumes "conforms \<Gamma> e" and "\<Gamma> v = Some t"
  obtains r ob where "s_vars e v = Some r" and "s_heap e r = Some ob" and "obj_conforms t ob"
  using assms unfolding conforms_def by blast

lemma obj_next_ok:
  assumes "obj_conforms t ob"
  shows "\<exists>x ob'. obj_next ob = (Inr x, ob') \<and> obj_conforms (next_ty t) ob' \<and> obj_keeps ob ob'"
proof (cases ob)
  case (OAleat s)
  with assms show ?thesis
    by (cases t) (auto simp: Aleat_next_nonzero obj_keeps_def elim: obj_conforms.elims)
next
  case (OGen g)
  with assms have "g_m g \<noteq> 0" "g_state g \<noteq> GEN_CLOSED"
    by (cases t; simp)+
  then have "gen_send g None = gen_loop g"
    by (cases "g_state g") (simp_all add: py_simps)
  with OGen assms \<open>g_m g \<noteq> 0\<close> show ?thesis
    by (cases t) (auto simp: gen_loop_nonzero obj_keeps_def elim: obj_conforms.elims)
qed

lemma obj_next_values:
  assumes "obj_conforms t ob"
  shows "\<exists>ob'. obj_next ob = (Inr (shd (obj_values ob)), ob') \<and> obj_values ob' = stl (obj_values ob) \<and>
              obj_conforms (next_ty t) ob'"
proof (cases ob)
  case (OAleat s)
  with assms show ?thesis
    by (cases t) (auto simp: Aleat_next_nonzero Aleat_values_def lcg_orbit_shd lcg_orbit_stl)
next
  case (OGen g)
  with assms have "g_m g \<noteq> 0" "g_state g \<noteq> GEN_CLOSED"
    by (cases t; simp)+
  then have "gen_send g None = gen_loop g"
    by (cases "g_state g") (simp_all add: py_simps)
  with OGen assms \<open>g_m g \<noteq> 0\<close> show ?thesis
    by (cases t) (auto simp: gen_loop_nonzero gen_values_def lcg_orbit_shd lcg_orbit_stl)
qed

lemma obj_call_ok:
  "obj_conforms TAleat ob \<Longrightarrow> \<exists>ob'. obj_call ob x0 = (Inr (), ob') \<and> obj_conforms TAleat ob' \<and> obj_keeps ob ob'"
  by (cases ob) (auto simp: Aleat_call_def obj_keeps_def elim: obj_conforms.elims)

lemma obj_send_ok:
  assumes "obj_conforms (TGen True) ob"
  shows "\<exists>y ob'. obj_send ob x = (Inr y, ob') \<and> obj_conforms (TGen True) ob' \<and> obj_keeps ob ob'"
proof (cases ob)
  case (OGen g)
  with assms have "g_m g \<noteq> 0" "g_state g = GEN_SUSPENDED" by simp_all
  with OGen show ?thesis
    by (auto simp: gen_send_suspended gen_loop_nonzero obj_keeps_def elim: obj_conforms.elims)
qed (use assms in simp)

lemma conforms_alloc:
  assumes "conforms \<Gamma> e" and "obj_conforms t ob"
  shows "conforms (\<Gamma>(v \<mapsto> t)) (sess_alloc e v ob)"
proof -
  have fresh: "s_heap e (s_next e) = None"
    using assms(1) by (auto simp: conforms_def)
  have "s_heap e r = Some ob' \<Longrightarrow> r \<noteq> s_next e" for r ob'
    using fresh by auto
  with assms show ?thesis
    unfolding conforms_def sess_alloc_def
    by (auto intro: less_SucI) metis
qed

lemma sess_invoke_ok:
  assumes "conforms \<Gamma> e" and "\<Gamma> v = Some t"
    and meth: "\<And>ob. obj_conforms t ob \<Longrightarrow>
                 \<exists>y ob'. meth ob = (Inr y, ob') \<and> obj_conforms t' ob' \<and> obj_keeps ob ob'"
  shows "\<exists>y e'. sess_invoke e v meth = (Inr y, e') \<and> conforms (\<Gamma>(v \<mapsto> t')) e'"
proof -
  obtain r ob where r: "s_vars e v = Some r" "s_heap e r = Some ob" and ob: "obj_conforms t ob"
    using assms(1,2) by (rule conforms_obj)
  obtain y ob' where m: "meth ob = (Inr y, ob')" "obj_conforms t' ob'" "obj_keeps ob ob'"
    using meth [OF ob] by blast
  have "conforms (\<Gamma>(v \<mapsto> t')) (e\<lparr>s_heap := (s_heap e)(r \<mapsto> ob')\<rparr>)"
    unfolding conforms_def
  proof (intro conjI allI impI)
    fix u tu
    assume u: "(\<Gamma>(v \<mapsto> t')) u = Some tu"
    show "\<exists>r' ob''. s_vars (e\<lparr>s_heap := (s_heap e)(r \<mapsto> ob')\<rparr>) u = Some r' \<and>
            s_heap (e\<lparr>s_heap := (s_heap e)(r \<mapsto> ob')\<rparr>) r' = Some ob'' \<and> obj_conforms tu ob''"
    proof (cases "u = v")
      case True
      with u r m(2) show ?thesis by simp
    next
      case False
      with u have "\<Gamma> u = Some tu" by simp
      with assms(1) obtain r' ob'' where "s_vars e u = Some r'" "s_heap e r' = Some ob''"
          "obj_conforms tu ob''"
        by (rule conforms_obj)
      with r m(3) show ?thesis
        by (cases "r' = r") (auto simp: obj_keeps_def)
    qed
  next
    show "\<forall>r' \<in> dom (s_heap (e\<lparr>s_heap := (s_heap e)(r \<mapsto> ob')\<rparr>)). r' < s_next (e\<lparr>s_heap := (s_heap e)(r \<mapsto> ob')\<rparr>)"
      using assms(1) r(2) by (auto simp: conforms_def)
  qed
  with r m(1) show ?thesis
    by (simp add: sess_invoke_def)
qed

lemma tc_simple_sound:
  assumes "tc_simple \<Gamma> st = Some \<Gamma>'" and "conforms \<Gamma> e"
  shows "\<exists>vs e'. exec_simple e st = (Inr vs, e') \<and> conforms \<Gamma>' e'"
proof (cases st)
  case (Let_Aleat v m a c x0)
  with assms show ?thesis
    by (auto simp: Aleat_init_def split: if_splits intro!: conforms_alloc)
next
  case (Let_aleat v m a c x0)
  with assms show ?thesis
    by (auto simp: aleat_def split: if_splits intro!: conforms_alloc)
next
  case (Let_iter w v)
  with assms obtain t where t: "\<Gamma> v = Some t" "\<Gamma>' = \<Gamma>(w \<mapsto> t)" by auto
  with assms(2) obtain r ob where "s_vars e v = Some r" "s_heap e r = Some ob" "obj_conforms t ob"
    by (blast elim: conforms_obj)
  with assms(2) t Let_iter show ?thesis
    by (auto simp: conforms_def)
next
  case (Print_next v)
  with assms obtain t where t: "\<Gamma> v = Some t" "\<Gamma>' = \<Gamma>(v \<mapsto> next_ty t)" by auto
  from sess_invoke_ok [OF assms(2) t(1), of obj_next "next_ty t"] obj_next_ok
  obtain y e' where "sess_invoke e v obj_next = (Inr y, e')" "conforms \<Gamma>' e'"
    using t(2) by blast
  with Print_next show ?thesis by simp
next
  case (Call_expr v x0)
  with assms have t: "\<Gamma> v = Some TAleat" "\<Gamma>' = \<Gamma>" by (auto split: if_splits)
  from sess_invoke_ok [OF assms(2) t(1), of "\<lambda>ob. obj_call ob x0" TAleat] obj_call_ok
  obtain y e' where "sess_invoke e v (\<lambda>ob. obj_call ob x0) = (Inr y, e')" "conforms (\<Gamma>(v \<mapsto> TAleat)) e'"
    by blast
  with Call_expr t show ?thesis by (simp add: fun_upd_idem)
next
  case (Send_expr v x)
  with assms have t: "\<Gamma> v = Some (TGen True)" "\<Gamma>' = \<Gamma>" by (auto split: if_splits)
  from sess_invoke_ok [OF assms(2) t(1), of "\<lambda>ob. obj_send ob x" "TGen True"] obj_send_ok
  obtain y e' where "sess_invoke e v (\<lambda>ob. obj_send ob x) = (Inr y, e')" "conforms (\<Gamma>(v \<mapsto> TGen True)) e'"
    by blast
  with Send_expr t show ?thesis by (simp add: fun_upd_idem)
qed

section \<open>The docstring sessions\<close>

text \<open>The session of the generator's docstring (lines 78--95).\<close>

definition aleat_doc_session :: "pstmt list" where
  "aleat_doc_session =
     [Simple (Let_aleat ''rand'' (Some 64) (Some 5) (Some 46) (Some 36)),
      For_range 4 [Simple (Print_next ''rand'')],
      Simple (Send_expr ''rand'' 24),
      For_range 4 [Simple (Print_next ''rand'')]]"

lemma conforms_empty [simp]: "conforms Map.empty sess_empty"
  by (simp add: conforms_def sess_empty_def)

section \<open>Properties of sessions\<close>

text \<open>
  C26 (type soundness). A session that passes the check, run from a store that conforms
  to the kinds the check starts from, raises nothing: every \<open>next\<close> returns, no
  \<open>NameError\<close>, \<open>TypeError\<close>, \<open>AttributeError\<close> or \<open>ZeroDivisionError\<close> occurs,
  and the store it ends in conforms to the kinds the check ends with.
\<close>

theorem tc_ps_sound:
  assumes "tc_ps \<Gamma> ss = Some \<Gamma>'" and "conforms \<Gamma> e"
  shows "\<exists>vs e'. exec_ps e ss = (Inr vs, e') \<and> conforms \<Gamma>' e'"
  using assms
proof (induction e ss arbitrary: \<Gamma> rule: exec_ps.induct)
  case (1 e)
  then show ?case by simp
next
  case (2 e st ss)
  obtain \<Gamma>1 where t1: "tc_simple \<Gamma> st = Some \<Gamma>1" and t2: "tc_ps \<Gamma>1 ss = Some \<Gamma>'"
    using "2.prems"(1) by (auto split: option.splits)
  obtain vs1 e1 where x1: "exec_simple e st = (Inr vs1, e1)" and c1: "conforms \<Gamma>1 e1"
    using tc_simple_sound [OF t1 "2.prems"(2)] by blast
  obtain vs2 e2 where "exec_ps e1 ss = (Inr vs2, e2)" and "conforms \<Gamma>' e2"
    using "2.IH" [OF t2 c1] by blast
  with x1 show ?case by (simp add: py_simps)
next
  case (3 e body ss)
  then show ?case by simp
next
  case (4 e n body ss)
  then show ?case by simp
qed

theorem tc_ps_sound_witness:
  "tc_ps Map.empty aleat_doc_session = Some [''rand'' \<mapsto> TGen True] \<and>
   conforms Map.empty sess_empty \<and>
   (\<exists>vs e'. exec_ps sess_empty aleat_doc_session = (Inr vs, e') \<and>
            conforms [''rand'' \<mapsto> TGen True] e')"
proof -
  have t: "tc_ps Map.empty aleat_doc_session = Some [''rand'' \<mapsto> TGen True]"
    by (simp add: aleat_doc_session_def numeral_eq_Suc)
  show ?thesis
    using tc_ps_sound [OF t conforms_empty] t by simp
qed

text \<open>
  C27 (refinement: loops of pulls). In any store, \<open>for _ in range(n): print(next(v))\<close>
  on a name bound to an instance with a non-zero modulus, or to a generator of non-zero
  modulus that has not finished, prints the first \<open>n\<close> values of the object's
  specification stream.
\<close>

theorem for_print_next_refines:
  assumes "s_vars e v = Some r" and "s_heap e r = Some ob" and "obj_conforms t ob"
  shows "fst (exec_ps e [For_range n [Simple (Print_next v)]]) = Inr (stake n (obj_values ob))"
  using assms
proof (induction n arbitrary: e ob t)
  case 0
  then show ?case by simp
next
  case (Suc n)
  obtain ob' where ob': "obj_next ob = (Inr (shd (obj_values ob)), ob')"
    "obj_values ob' = stl (obj_values ob)" "obj_conforms (next_ty t) ob'"
    using obj_next_values [OF Suc.prems(3)] by blast
  let ?e1 = "e\<lparr>s_heap := (s_heap e)(r \<mapsto> ob')\<rparr>"
  have "fst (exec_ps ?e1 [For_range n [Simple (Print_next v)]]) = Inr (stake n (obj_values ob'))"
    using Suc.prems(1) ob'(3) by (intro Suc.IH) simp_all
  with Suc.prems(1,2) ob'(1,2) show ?case
    by (simp add: sess_invoke_def py_simps)
qed

theorem for_print_next_refines_witness:
  "s_vars (snd (exec_ps sess_empty [Simple (Let_aleat ''rand'' (Some 64) (Some 5) (Some 46) (Some 36))])) ''rand'' = Some 0 \<and>
   s_heap (snd (exec_ps sess_empty [Simple (Let_aleat ''rand'' (Some 64) (Some 5) (Some 46) (Some 36))])) 0 =
     Some (OGen (aleat (Some 64) (Some 5) (Some 46) (Some 36))) \<and>
   obj_conforms (TGen False) (OGen (aleat (Some 64) (Some 5) (Some 46) (Some 36))) \<and>
   fst (exec_ps (snd (exec_ps sess_empty [Simple (Let_aleat ''rand'' (Some 64) (Some 5) (Some 46) (Some 36))]))
          [For_range 4 [Simple (Print_next ''rand'')]]) =
     Inr (stake 4 (gen_values (aleat (Some 64) (Some 5) (Some 46) (Some 36))))"
proof -
  let ?e = "snd (exec_ps sess_empty [Simple (Let_aleat ''rand'' (Some 64) (Some 5) (Some 46) (Some 36))])"
  have h: "s_vars ?e ''rand'' = Some 0" "s_heap ?e 0 = Some (OGen (aleat (Some 64) (Some 5) (Some 46) (Some 36)))"
    "obj_conforms (TGen False) (OGen (aleat (Some 64) (Some 5) (Some 46) (Some 36)))"
    by (simp_all add: sess_empty_def sess_alloc_def aleat_def py_simps)
  with for_print_next_refines [OF h, of 4] show ?thesis by simp
qed

end
