(* ===== verification/Doctest.thy ===== *)
theory Doctest
  imports Py_Session "HOL-Library.List_Lexorder" "HOL-Library.Char_ord"
begin

text \<open>
  The \<open>__main__\<close> block of \<open>src/aleatorios.py\<close> (lines 104--106) runs
  \<open>doctest.testmod(verbose=True)\<close>. \<open>testmod\<close> collects the docstrings of the module,
  of its class and of its function, parses each into examples (a source after
  \<open>>>>\<close> and \<open>...\<close>, and the output it expects), and runs the examples of each
  docstring in order in a fresh copy of the module's globals, comparing what each
  prints with what it expects. It returns \<open>TestResults(failed, attempted)\<close>. The
  examples are the sessions of \<open>Py_Session\<close>; the printed text of an integer is
  its \<open>repr\<close>, so outputs compare as lists of integers. An example that raises fails
  (no example of the module expects a traceback). What \<open>verbose=True\<close> prints is
  not modelled.
\<close>

section \<open>Examples, tests and the runner\<close>

datatype example = Example pstmt "int list"

text \<open>A docstring's test: the qualified name of the object and its examples.\<close>

datatype doctest = DocTest string "example list"

primrec dt_name :: "doctest \<Rightarrow> string" where
  "dt_name (DocTest n exs) = n"

primrec dt_examples :: "doctest \<Rightarrow> example list" where
  "dt_examples (DocTest n exs) = exs"

record test_results =
  tr_failed :: nat
  tr_attempted :: nat

text \<open>
  \<open>DocTestRunner.run\<close> on one test: every example runs, in the globals the earlier
  ones left, whether or not an earlier one failed.
\<close>

fun run_examples :: "sess_env \<Rightarrow> example list \<Rightarrow> test_results" where
  "run_examples e [] = \<lparr>tr_failed = 0, tr_attempted = 0\<rparr>"
| "run_examples e (Example src want # exs) =
     (case exec_ps e [src] of
        (got, e') \<Rightarrow>
          (let r = run_examples e' exs
           in \<lparr>tr_failed = (if got = Inr want then tr_failed r else Suc (tr_failed r)),
               tr_attempted = Suc (tr_attempted r)\<rparr>))"

text \<open>
  \<open>testmod\<close>: the finder drops the docstrings without examples and sorts the tests by
  name; each test runs from fresh globals; the results are summed.
\<close>

definition doctest_order :: "doctest list \<Rightarrow> doctest list" where
  "doctest_order tests = sort_key dt_name (filter (\<lambda>t. dt_examples t \<noteq> []) tests)"

definition doctest_run :: "doctest list \<Rightarrow> (string \<times> test_results) list" where
  "doctest_run tests =
     map (\<lambda>t. (dt_name t, run_examples sess_empty (dt_examples t))) (doctest_order tests)"

definition testmod :: "doctest list \<Rightarrow> test_results" where
  "testmod tests =
     \<lparr>tr_failed = sum_list (map (tr_failed \<circ> snd) (doctest_run tests)),
      tr_attempted = sum_list (map (tr_attempted \<circ> snd) (doctest_run tests))\<rparr>"

section \<open>The module's docstrings\<close>

text \<open>
  The module docstring (lines 1--11) shows a shell command, not a \<open>>>>\<close> example.
  The class docstring (lines 14--44) has four examples, the two \<open>for\<close> loops with
  their expected output and the construction and the call, which expect none; so has
  the function's (lines 64--96).
\<close>

text \<open>
  The shape of the class docstring: construct \<open>rand\<close>, pull \<open>n\<close> values in a loop,
  reset with \<open>rand(s)\<close>, pull \<open>k\<close> more; \<open>w1\<close> and \<open>w2\<close> are the outputs the
  docstring expects of the two loops.
\<close>

definition Aleat_doc_examples ::
  "int \<Rightarrow> int \<Rightarrow> int \<Rightarrow> int \<Rightarrow> nat \<Rightarrow> int list \<Rightarrow> int \<Rightarrow> nat \<Rightarrow> int list \<Rightarrow> example list" where
  "Aleat_doc_examples m a c x0 n w1 s k w2 =
     [Example (Simple (Let_Aleat ''rand'' (Some m) (Some a) (Some c) (Some x0))) [],
      Example (For_range n [Simple (Print_next ''rand'')]) w1,
      Example (Simple (Call_expr ''rand'' s)) [],
      Example (For_range k [Simple (Print_next ''rand'')]) w2]"

text \<open>
  The shape of the generator's docstring: create \<open>rand\<close>, pull \<open>n\<close> values, echo
  \<open>rand.send(s)\<close> (expected \<open>ws\<close>), pull \<open>k\<close> more.
\<close>

definition aleat_doc_examples ::
  "int \<Rightarrow> int \<Rightarrow> int \<Rightarrow> int \<Rightarrow> nat \<Rightarrow> int list \<Rightarrow> int \<Rightarrow> int list \<Rightarrow> nat \<Rightarrow> int list \<Rightarrow> example list" where
  "aleat_doc_examples m a c x0 n w1 s ws k w2 =
     [Example (Simple (Let_aleat ''rand'' (Some m) (Some a) (Some c) (Some x0))) [],
      Example (For_range n [Simple (Print_next ''rand'')]) w1,
      Example (Simple (Send_expr ''rand'' s)) ws,
      Example (For_range k [Simple (Print_next ''rand'')]) w2]"

text \<open>The two docstrings of the module (lines 27--43 and 78--95).\<close>

definition Aleat_examples :: "example list" where
  "Aleat_examples = Aleat_doc_examples 32 9 13 11 4 [16, 29, 18, 15] 29 4 [18, 15, 20, 1]"

definition aleat_examples :: "example list" where
  "aleat_examples = aleat_doc_examples 64 5 46 36 4 [34, 24, 38, 44] 24 [38] 4 [44, 10, 32, 14]"

text \<open>
  The tests of the module named \<open>modname\<close>: \<open>__main__\<close> when the file runs as a
  script, \<open>aleatorios\<close> under \<open>python3 -m doctest\<close>. The methods of \<open>Aleat\<close> have
  no docstrings.
\<close>

definition module_doctests :: "string \<Rightarrow> doctest list" where
  "module_doctests modname =
     [DocTest modname [], DocTest (modname @ ''.Aleat'') Aleat_examples,
      DocTest (modname @ ''.aleat'') aleat_examples]"

section \<open>Lemmas\<close>

lemma append_less_append_iff:
  fixes ys zs :: "'a::linorder list"
  shows "xs @ ys < xs @ zs \<longleftrightarrow> ys < zs"
  by (induction xs) simp_all

lemma Aleat_doc_examples_run:
  assumes "m \<noteq> 0"
  shows "run_examples sess_empty (Aleat_doc_examples m a c x0 n w1 s k w2) =
    \<lparr>tr_failed = (if w1 = stake n (lcg_orbit m a c x0) then 0 else 1) +
                 (if w2 = stake k (lcg_orbit m a c s) then 0 else 1),
     tr_attempted = 4\<rparr>"
  using assms
  by (simp add: Aleat_doc_examples_def sess_empty_def sess_alloc_def sess_invoke_def Aleat_init_def
      exec_for_print_next obj_pulls_Aleat Aleat_run_replicate_values Aleat_call_def Aleat_values_def
      py_simps split: prod.split)

lemma aleat_doc_examples_run:
  assumes "m \<noteq> 0" and "n = Suc n'"
  shows "run_examples sess_empty (aleat_doc_examples m a c x0 n w1 s ws k w2) =
    \<lparr>tr_failed = (if w1 = stake n (lcg_orbit m a c x0) then 0 else 1) +
                 (if ws = [lcg_fun m a c s] then 0 else 1) +
                 (if w2 = stake k (stl (lcg_orbit m a c s)) then 0 else 1),
     tr_attempted = 4\<rparr>"
proof -
  let ?g = "aleat (Some m) (Some a) (Some c) (Some x0)"
  let ?g1 = "?g\<lparr>g_x := lcg_orbit m a c x0 !! n', g_state := GEN_SUSPENDED\<rparr>"
  let ?g2 = "?g1\<lparr>g_x := lcg_fun m a c s\<rparr>"
  let ?e1 = "\<lparr>s_vars = [''rand'' \<mapsto> 0], s_heap = [0 \<mapsto> OGen ?g], s_next = 1\<rparr>"
  let ?e2 = "?e1\<lparr>s_heap := (s_heap ?e1)(0 \<mapsto> OGen ?g1)\<rparr>"
  let ?e3 = "?e2\<lparr>s_heap := (s_heap ?e2)(0 \<mapsto> OGen ?g2)\<rparr>"
  have m: "g_m ?g \<noteq> 0" "g_state ?g \<noteq> GEN_CLOSED"
    using assms(1) by (simp_all add: aleat_def)
  have vals: "gen_values ?g = lcg_orbit m a c x0"
    by (simp add: gen_values_def aleat_def)
  have st: "gen_run ?g (replicate n GNext) = (Inr (stake n (lcg_orbit m a c x0)), ?g1)"
    using gen_run_replicate_state [OF m, of n'] vals by (simp only: assms(2))
  have h1: "exec_ps sess_empty [Simple (Let_aleat ''rand'' (Some m) (Some a) (Some c) (Some x0))] =
      (Inr [], ?e1)"
    by (simp add: sess_empty_def sess_alloc_def py_simps)
  have h2: "exec_ps ?e1 [For_range n [Simple (Print_next ''rand'')]] = (Inr (stake n (lcg_orbit m a c x0)), ?e2)"
    by (simp add: exec_for_print_next obj_pulls_gen st)
  have h3: "exec_ps ?e2 [Simple (Send_expr ''rand'' s)] = (Inr [lcg_fun m a c s], ?e3)"
    using assms(1)
    by (simp add: sess_invoke_def gen_send_suspended gen_loop_nonzero py_simps,
        simp add: aleat_def gen_loop_nonzero py_simps)
  have "fst (gen_run ?g2 (replicate k GNext)) = Inr (stake k (stl (lcg_orbit m a c s)))"
    using assms(1) by (simp add: gen_run_replicate_values gen_values_def lcg_orbit_stl aleat_def)
  then obtain gk where gk: "gen_run ?g2 (replicate k GNext) = (Inr (stake k (stl (lcg_orbit m a c s))), gk)"
    by (cases "gen_run ?g2 (replicate k GNext)") simp
  have h4: "exec_ps ?e3 [For_range k [Simple (Print_next ''rand'')]] =
      (Inr (stake k (stl (lcg_orbit m a c s))), ?e3\<lparr>s_heap := (s_heap ?e3)(0 \<mapsto> OGen gk)\<rparr>)"
    using gk by (simp add: exec_for_print_next obj_pulls_gen)
  show ?thesis
    by (simp only: aleat_doc_examples_def run_examples.simps h1 h2 h3 h4 prod.case Let_def) auto
qed

lemma doctest_order_module:
  assumes "X \<noteq> []" and "Y \<noteq> []"
  shows "doctest_order [DocTest modname [], DocTest (modname @ ''.Aleat'') X,
                        DocTest (modname @ ''.aleat'') Y] =
           [DocTest (modname @ ''.Aleat'') X, DocTest (modname @ ''.aleat'') Y]"
proof -
  have "modname @ ''.Aleat'' < modname @ ''.aleat''"
    by (simp add: append_less_append_iff less_char_def)
  with assms show ?thesis
    by (simp add: doctest_order_def)
qed

section \<open>When the module's doctests pass\<close>

text \<open>
  C7 (functional: the \<open>__main__\<close> block). For docstrings of the shapes of the module's
  two (any configuration with non-zero moduli, any loop lengths, any seeds, at least
  one pull before the \<open>send\<close>), \<open>doctest.testmod\<close> attempts all eight examples and
  reports no failure exactly when every expected output is what the specification
  gives: the first \<open>n\<close> values of the stream of \<open>x0\<close>, after \<open>rand(s)\<close> the
  stream of \<open>s\<close>, and after \<open>send(s)\<close> the value \<open>(a * s + c) mod m\<close> followed
  by the rest of the stream of \<open>s\<close>.
\<close>

theorem testmod_passes_iff:
  assumes "m1 \<noteq> 0" and "m2 \<noteq> 0" and "0 < n2"
  shows "testmod [DocTest modname [],
                  DocTest (modname @ ''.Aleat'') (Aleat_doc_examples m1 a1 c1 x1 n1 w1 s1 k1 w2),
                  DocTest (modname @ ''.aleat'') (aleat_doc_examples m2 a2 c2 x2 n2 w3 s2 ws k2 w4)] =
           \<lparr>tr_failed = 0, tr_attempted = 8\<rparr> \<longleftrightarrow>
         w1 = stake n1 (lcg_orbit m1 a1 c1 x1) \<and> w2 = stake k1 (lcg_orbit m1 a1 c1 s1) \<and>
         w3 = stake n2 (lcg_orbit m2 a2 c2 x2) \<and> ws = [(a2 * s2 + c2) mod m2] \<and>
         w4 = stake k2 (stl (lcg_orbit m2 a2 c2 s2))"
proof -
  obtain n' where n: "n2 = Suc n'" using assms(3) by (cases n2) simp_all
  show ?thesis
    using Aleat_doc_examples_run [OF assms(1), of a1 c1 x1 n1 w1 s1 k1 w2]
      aleat_doc_examples_run [OF assms(2) n, of a2 c2 x2 w3 s2 ws k2 w4]
    by (simp add: testmod_def doctest_run_def doctest_order_module Aleat_doc_examples_def
        aleat_doc_examples_def lcg_fun_def)
qed

theorem testmod_passes_iff_witness:
  "(32::int) \<noteq> 0 \<and> (64::int) \<noteq> 0 \<and> (0::nat) < 4 \<and>
   testmod (module_doctests ''__main__'') = \<lparr>tr_failed = 0, tr_attempted = 8\<rparr>"
proof -
  have h: "(32::int) \<noteq> 0" "(64::int) \<noteq> 0" "(0::nat) < 4" by simp_all
  have "testmod (module_doctests ''__main__'') = \<lparr>tr_failed = 0, tr_attempted = 8\<rparr>"
    unfolding module_doctests_def Aleat_examples_def aleat_examples_def
    by (subst testmod_passes_iff [OF h])
      (simp add: lcg_orbit_def lcg_fun_def numeral_eq_Suc)
  with h show ?thesis by simp
qed

end
