(* ===== verification/Spec2Isabelle.thy ===== *)
theory Spec2Isabelle
  imports Aleat_Class Aleat_Generator LCG_Word Aleat_Heap LCG_Period Aleat_Gen_Body Doctest
begin

text \<open>
  \<^bold>\<open>A verification of src/aleatorios.py: a linear congruential generator behind two
  Python interfaces.\<close>

  \<^medskip>
  \<^bold>\<open>The program.\<close> The module implements the recurrence
  \<open>x := (a * x + c) % m\<close> twice. The class \<open>Aleat\<close> (lines 13--60) keeps \<open>m\<close>,
  \<open>a\<close>, \<open>c\<close> and the current value \<open>x\<close> as attributes; \<open>__next__\<close> steps and
  returns \<open>x\<close>, \<open>__call__(x0)\<close> overwrites \<open>x\<close> without stepping, and \<open>__iter__\<close>
  returns the instance itself. The generator function \<open>aleat\<close> (lines 63--101) keeps
  the same four values as locals of its frame; each resumption steps, yields the new
  \<open>x\<close>, and on the next resumption stores the value passed by \<open>send\<close> in \<open>x\<close>
  unless it is \<open>None\<close>. Both take keyword-only arguments with the defaults
  \<open>m = 2^48\<close>, \<open>a = 25214903917\<close>, \<open>c = 11\<close>, \<open>x0 = 1212121\<close>. The docstrings
  (lines 27--43 and 78--95) run one session with each. The two interfaces share no
  state; they share the recurrence. Python integers are unbounded, so every value is an
  \<open>int\<close>; \<open>%\<close> rounds towards minus infinity, as HOL's \<open>mod\<close> on \<open>int\<close> does,
  and raises \<open>ZeroDivisionError\<close> for \<open>m = 0\<close>.

  \<^medskip>
  \<^bold>\<open>The theories.\<close>
  \<^item> \<open>LCG_Prelude\<close>: Python's errors (\<open>py_error\<close>), results \<open>py_error + 'a\<close>,
    the remainder \<open>py_mod\<close> with its \<open>ZeroDivisionError\<close>, the range
    \<open>in_py_range\<close> of \<open>% m\<close>, keyword arguments \<open>kwarg\<close>, and the combinators
    \<open>py_cons\<close>, \<open>py_append\<close>, \<open>py_then\<close> that propagate an exception through a
    session. The evaluation rules are collected in \<open>py_simps\<close>.
  \<^item> \<open>LCG_Engine\<close>: \<open>lcg m a c x\<close> is the expression \<open>(a * x + c) % m\<close> of lines
    56 and 99. The abstract specification is the stream \<open>lcg_orbit m a c x0\<close> of
    emitted values (HOL-Library's \<open>siterate\<close> of the total recurrence \<open>lcg_fun\<close>).
    Its lemmas are the range of every element and the pigeonhole argument for eventual
    periodicity.
  \<^item> \<open>Aleat_Class\<close>: the instance is the record \<open>Aleat\<close> (fields \<open>self_m\<close>,
    \<open>self_a\<close>, \<open>self_c\<close>, \<open>self_x\<close>). \<open>Aleat_init\<close>, \<open>Aleat_iter\<close>,
    \<open>Aleat_next\<close> and \<open>Aleat_call\<close> are the four methods; each returns the new
    state and, for \<open>__next__\<close>, the outcome. A failed \<open>__next__\<close> leaves the state
    unchanged because the assignment never happens. \<open>Aleat_run\<close> runs a session of
    \<open>Next\<close> and \<open>Call v\<close> operations and stops at the first exception.
    \<open>Aleat_values\<close> abstracts an instance to the stream it will produce. Claims
    C1--C6, C17 and C22.
  \<^item> \<open>Aleat_Generator\<close>: the generator object is the record \<open>aleat_gen\<close> of its
    frame's locals and its state \<open>GEN_CREATED\<close>, \<open>GEN_SUSPENDED\<close> or
    \<open>GEN_CLOSED\<close>. \<open>aleat\<close> creates it, \<open>gen_loop\<close> is one pass from the loop head
    to the \<open>yield\<close>, and \<open>gen_send\<close> is \<open>generator.send\<close> with Python's rules.
    Those rules are: a value other than \<open>None\<close> sent to an unstarted generator raises
    \<open>TypeError\<close>; an exception in the body closes the generator; a closed generator
    raises \<open>StopIteration\<close>. \<open>next(gen)\<close> is \<open>gen_send g None\<close>. \<open>gen_run\<close>
    runs a session. \<open>gen_reachable\<close> is the inductive set of frames a program can
    reach, and \<open>gen_inv\<close> its invariant. Claims C8--C12 and C23.
  \<^item> \<open>Aleat_Heap\<close>: instances as Python objects. A client program
    (\<open>stmt\<close>: construction, \<open>iter\<close>, \<open>print(next(v))\<close>, \<open>v(x0)\<close>) runs over
    \<open>py_env\<close>. Its variables hold references, and its store maps references to
    \<open>Aleat\<close> states. \<open>exec_stmt\<close> runs the class's methods on the object a name
    refers to; \<open>iter\<close> returns the same reference, since \<open>__iter__\<close> returns
    \<open>self\<close>. Claim C16.
  \<^item> \<open>Aleat_Gen_Body\<close>: the body of \<open>aleat\<close> line by line. \<open>body_pc\<close> names
    lines 97--101, \<open>body_frame\<close> holds the locals (\<open>x\<close> unbound until line 97 runs),
    \<open>body_step\<close> runs one line, and the \<open>while True\<close> loop is \<open>body_exec\<close>, a
    \<open>partial_function (option)\<close> that runs lines until the \<open>yield\<close> or an exception.
    \<open>body_send\<close> and \<open>body_run\<close> are \<open>send\<close> and sessions on this body, and
    \<open>body_abs\<close> reads a compact frame off it. Claims C20--C21.
  \<^item> \<open>LCG_Word\<close>: the step at a fixed width. \<open>lcg_word64\<close> is the 64-bit
    wrap-around step masked to 48 bits. Claim C15.
  \<^item> \<open>LCG_Period\<close>: the period for a power-of-two modulus. It uses the closed
    form of the iterates, the 2-adic valuation of the geometric sum
    \<open>1 + a + \<dots> + a^(n-1)\<close>, and the exact return time \<open>2^k\<close> under the Hull--Dobell
    conditions \<open>a mod 4 = 1\<close>, \<open>c\<close> odd; from it, the first \<open>2^k\<close> values are
    \<open>[0, 2^k)\<close> in some order. The root states both of the two interfaces.
  \<^item> \<open>Py_Session\<close>: client sessions over both interfaces, in the statements the
    docstrings use: constructors, \<open>iter\<close>, \<open>print(next(v))\<close>, \<open>v(x0)\<close> and
    \<open>v.send(x)\<close> echoed by the prompt, and \<open>for _ in range(n)\<close> loops (\<open>exec_ps\<close>,
    a \<open>function\<close> whose termination measure weighs a loop by its count). Objects
    \<open>py_obj\<close> are instances or generators in one store; \<open>obj_next\<close>,
    \<open>obj_call\<close> and \<open>obj_send\<close> dispatch the calls, raising \<open>TypeError\<close> for a
    call of a generator and \<open>AttributeError\<close> for \<open>send\<close> on an instance.
    \<open>tc_ps\<close> is a static check of sessions (the kind of each name, and whether a
    generator has surely started), and \<open>conforms\<close> relates its kinds to a store.
    Claims C26--C27.
  \<^item> \<open>Doctest\<close>: the \<open>__main__\<close> block. The shapes of the two docstrings
    (\<open>Aleat_doc_examples\<close>, \<open>aleat_doc_examples\<close>) and their instances in the module
    (\<open>Aleat_examples\<close>, \<open>aleat_examples\<close>, \<open>module_doctests\<close>), the runner
    \<open>run_examples\<close> and \<open>testmod\<close>, which drops tests without examples, sorts them
    by name (HOL-Library's lexicographic order on strings) and sums their results.
    Claim C7.
  \<^item> this theory: \<open>gen_sim\<close> relates an instance and a frame that hold the same four
    values. \<open>aleat_ops_of\<close> translates a generator operation into the class session
    that does the same: \<open>send(v)\<close> becomes \<open>rand(v)\<close> then \<open>next(rand)\<close>. Claims
    C13, C14, C18, C19, C24 and C25.

  \<^medskip>
  \<^bold>\<open>What the lemmas show.\<close> Refinement: pulls from either interface are prefixes of
  \<open>lcg_orbit\<close> (C1, C8), also through loops of a client session (C27), and for the
  default modulus the step is the masked 64-bit step (C15). Functional behaviour on every
  branch: the step and its range (C2), reset (C3), the recurrence law in sessions with
  resets (C4), injection (C9), and the docstrings as \<open>doctest\<close> runs them: for
  docstrings of their shape, \<open>testmod\<close> passes exactly when the expected outputs are the
  specification's values (C7). Round trips: reseeding or sending back an emitted value
  replays the stream after it (C22, C23). Errors: a zero modulus (C5, C12), and a
  negative one, which does not raise but yields values in \<open>(m, 0]\<close> (C17). Type
  soundness: a session that passes the static check raises nothing (C26). The invariant
  of reachable generator frames, by rule induction (C10). Termination: every resumption
  of the line-level body returns (C20), and that body is the compact model (C21).
  Bounds, all stated of the values the calls return: the range over sessions (C11),
  eventual periodicity with pre-period plus period at most \<open>m\<close> (C6), and the full
  period \<open>m\<close> of every power-of-two modulus under the Hull--Dobell conditions (C18), in
  particular \<open>2^48\<close> for the default generator from every seed (C19). Liveness: under
  the same conditions every value of \<open>[0, m)\<close> is produced within \<open>m\<close> pulls (C24,
  C25). Equivalence of the two interfaces: the same pulls (C13), and the same sessions
  under the translation of \<open>send\<close> (C14). Object identity: pulls through aliases made
  by \<open>iter\<close> share one stream and distinct instances never interfere (C16).

  \<^medskip>
  \<^bold>\<open>Bounds and fuel.\<close> No fuel is needed. Every operation is a constant number of
  integer operations. Sessions are finite lists of operations, run by structural
  recursion, or by \<open>exec_ps\<close>, whose loops unroll under a weight that decreases. The
  \<open>while True\<close> of \<open>aleat\<close> is \<open>body_exec\<close>, which may not return by its
  definition; C20 proves that it always does, within one pass of the loop. The
  infinite sequence the program promises is a stream. The period bound \<open>m\<close> comes
  from the \<open>m\<close> values of \<open>[0, m)\<close> by pigeonhole on the first \<open>m + 1\<close> values.
  The word width 64 is the width a port would use.

  \<^medskip>
  \<^bold>\<open>Not modelled.\<close> Arguments that are not integers: a float or an explicit \<open>None\<close>
  keyword argument would reach \<open>%\<close> as another type. The generator methods
  \<open>close\<close> and \<open>throw\<close>, which the module never calls. The transient state
  \<open>GEN_RUNNING\<close>: no resumption re-enters its own generator. What \<open>doctest\<close>
  prints under \<open>verbose=True\<close>, and the textual comparison of outputs beyond the
  \<open>repr\<close> of integers.

  \<^medskip>
  \<^bold>\<open>Plan for further work.\<close> The generator's \<open>close\<close> and \<open>throw\<close>, as further
  operations on the frame. The Hull--Dobell conditions for moduli that are not powers of
  two; C18 covers the powers of two, including the default.
\<close>

section \<open>The two interfaces side by side\<close>

text \<open>
  An instance of \<open>Aleat\<close> and a generator frame that has not finished correspond when
  they hold the same modulus, multiplier, increment and current value.
\<close>

definition gen_sim :: "Aleat \<Rightarrow> aleat_gen \<Rightarrow> bool" where
  "gen_sim s g =
     (g_m g = self_m s \<and> g_a g = self_a s \<and> g_c g = self_c s \<and> g_x g = self_x s \<and>
      g_state g \<noteq> GEN_CLOSED)"

text \<open>
  The class session that does what one generator operation does: a plain pull is a
  pull; \<open>send(v)\<close> is a reset \<open>rand(v)\<close> followed by a pull.
\<close>

primrec aleat_ops_of :: "gen_op \<Rightarrow> Aleat_op list" where
  "aleat_ops_of GNext = [Next]"
| "aleat_ops_of (GSend v) = [Call v, Next]"

lemma gen_sim_init: "gen_sim (Aleat_init m a c x0) (aleat m a c x0)"
  by (simp add: gen_sim_def Aleat_init_def aleat_def)

lemma gen_sim_pull:
  assumes "gen_sim s g" and "self_m s \<noteq> 0"
  shows "fst (gen_send g None) = fst (Aleat_next s) \<and>
         gen_sim (snd (Aleat_next s)) (snd (gen_send g None)) \<and>
         g_state (snd (gen_send g None)) = GEN_SUSPENDED"
proof -
  have "gen_send g None = gen_loop g"
    using assms(1) by (cases "g_state g") (simp_all add: gen_sim_def py_simps)
  with assms show ?thesis
    by (simp add: gen_sim_def gen_loop_nonzero Aleat_next_nonzero)
qed

lemma gen_sim_inject:
  assumes "gen_sim s g" and "g_state g = GEN_SUSPENDED" and "self_m s \<noteq> 0"
  shows "fst (gen_send g (Some v)) = fst (Aleat_next (Aleat_call s v)) \<and>
         gen_sim (snd (Aleat_next (Aleat_call s v))) (snd (gen_send g (Some v))) \<and>
         g_state (snd (gen_send g (Some v))) = GEN_SUSPENDED"
  using assms
  by (simp add: gen_sim_def gen_send_suspended gen_loop_nonzero Aleat_next_nonzero Aleat_call_def)

lemma gen_sim_run:
  assumes "gen_sim s g" and "g_state g = GEN_SUSPENDED" and "self_m s \<noteq> 0"
  shows "fst (gen_run g ops) = fst (Aleat_run s (concat (map aleat_ops_of ops)))"
  using assms
proof (induction ops arbitrary: s g)
  case Nil
  then show ?case by simp
next
  case (Cons op ops)
  show ?case
  proof (cases op)
    case GNext
    obtain r g' where g': "gen_send g None = (r, g')" by fastforce
    obtain r' s' where s': "Aleat_next s = (r', s')" by fastforce
    from gen_sim_pull [OF Cons.prems(1,3)] g' s'
    have "r = r'" "gen_sim s' g'" "g_state g' = GEN_SUSPENDED" by simp_all
    moreover have "self_m s' \<noteq> 0"
      using Aleat_next_params [of s] s' Cons.prems(3) by simp
    ultimately show ?thesis
      using Cons.IH [of s' g'] GNext g' s' Cons.prems(3)
      by (simp add: Aleat_next_nonzero py_simps split: sum.split)
  next
    case (GSend v)
    obtain r g' where g': "gen_send g (Some v) = (r, g')" by fastforce
    obtain r' s' where s': "Aleat_next (Aleat_call s v) = (r', s')" by fastforce
    from gen_sim_inject [OF Cons.prems, of v] g' s'
    have "r = r'" "gen_sim s' g'" "g_state g' = GEN_SUSPENDED" by simp_all
    moreover have "self_m s' \<noteq> 0"
      using Aleat_next_params [of "Aleat_call s v"] s' Cons.prems(3) by (simp add: Aleat_call_def)
    ultimately show ?thesis
      using Cons.IH [of s' g'] GSend g' s' Cons.prems(3)
      by (simp add: Aleat_next_nonzero Aleat_call_def py_simps split: sum.split)
  qed
qed


section \<open>Properties across the interfaces\<close>

text \<open>
  C13 (equivalence). For every configuration, \<open>n\<close> pulls from a new \<open>Aleat\<close> and
  \<open>n\<close> pulls from a new \<open>aleat\<close> generator give the same values, or raise the same
  exception.
\<close>

theorem interfaces_pull_equivalence:
  "fst (Aleat_take n (Aleat_init m a c x0)) = fst (gen_run (aleat m a c x0) (replicate n GNext))"
proof (cases "kwarg m (2 ^ 48) = 0")
  case True
  then show ?thesis
    by (cases n) (simp_all add: Aleat_take_def Aleat_init_def aleat_def py_simps)
next
  case False
  have "fst (Aleat_take n (Aleat_init m a c x0)) = Inr (stake n (Aleat_values (Aleat_init m a c x0)))"
    using False by (simp add: Aleat_take_def Aleat_run_replicate_values Aleat_init_def)
  moreover have "fst (gen_run (aleat m a c x0) (replicate n GNext)) =
                 Inr (stake n (gen_values (aleat m a c x0)))"
    using False by (intro gen_run_replicate_values) (simp_all add: aleat_def)
  ultimately show ?thesis
    by (simp add: Aleat_values_def gen_values_def Aleat_init_def aleat_def)
qed

text \<open>
  C14 (equivalence). Every session with a generator that starts with a plain pull has the
  outcome of the session with an \<open>Aleat\<close> of the same configuration in which each
  \<open>send(v)\<close> is replaced by \<open>rand(v)\<close> followed by \<open>next(rand)\<close>.
\<close>

theorem interfaces_session_equivalence:
  "fst (gen_run (aleat m a c x0) (GNext # ops)) =
   fst (Aleat_run (Aleat_init m a c x0) (Next # concat (map aleat_ops_of ops)))"
proof (cases "kwarg m (2 ^ 48) = 0")
  case True
  then show ?thesis by (simp add: Aleat_init_def aleat_def py_simps)
next
  case False
  let ?s = "Aleat_init m a c x0" and ?g = "aleat m a c x0"
  obtain r g' where g': "gen_send ?g None = (r, g')" by fastforce
  obtain r' s' where s': "Aleat_next ?s = (r', s')" by fastforce
  have m: "self_m ?s \<noteq> 0" using False by (simp add: Aleat_init_def)
  from gen_sim_pull [OF gen_sim_init m] g' s'
  have "r = r'" "gen_sim s' g'" "g_state g' = GEN_SUSPENDED" by simp_all
  moreover have "self_m s' \<noteq> 0"
    using Aleat_next_params [of ?s] s' m by simp
  ultimately show ?thesis
    using gen_sim_run [of s' g' ops] g' s' m
    by (simp add: Aleat_next_nonzero py_simps split: sum.split)
qed

text \<open>
  C18 (bounds: full period for power-of-two moduli). If the modulus of an instance is
  \<open>2^k\<close>, its multiplier is \<open>1\<close> modulo 4 and its increment is odd, then in any number
  of calls of \<open>next\<close> on it, two returned values \<open>n\<close> calls apart are equal exactly
  when \<open>2^k\<close> divides \<open>n\<close>: the pulls have period \<open>2^k = m\<close> from every seed and
  every position, and no shorter one.
\<close>

theorem Aleat_full_period_pow2:
  assumes "self_m s = 2 ^ k" and "self_a s mod 4 = 1" and "odd (self_c s)"
  shows "\<exists>vs. fst (Aleat_take N s) = Inr vs \<and>
           (\<forall>i n. i + n < N \<longrightarrow> (vs ! (i + n) = vs ! i \<longleftrightarrow> (2::nat) ^ k dvd n))"
proof -
  have "fst (Aleat_take N s) = Inr (stake N (Aleat_values s))"
    using assms(1) by (simp add: Aleat_take_stake)
  moreover have "Aleat_values s !! (i + n) = Aleat_values s !! i \<longleftrightarrow> (2::nat) ^ k dvd n" for i n
    unfolding Aleat_values_def using assms by (rule lcg_orbit_period_pow2)
  ultimately show ?thesis by auto
qed

theorem Aleat_full_period_pow2_witness:
  "self_m (Aleat_init (Some 32) (Some 9) (Some 13) (Some 11)) = 2 ^ 5 \<and>
   self_a (Aleat_init (Some 32) (Some 9) (Some 13) (Some 11)) mod 4 = 1 \<and>
   odd (self_c (Aleat_init (Some 32) (Some 9) (Some 13) (Some 11))) \<and>
   (\<exists>vs. fst (Aleat_take 33 (Aleat_init (Some 32) (Some 9) (Some 13) (Some 11))) = Inr vs \<and>
         vs ! 32 = vs ! 0 \<and> vs ! 19 \<noteq> vs ! 3)"
proof -
  let ?s = "Aleat_init (Some 32) (Some 9) (Some 13) (Some 11)"
  have h: "self_m ?s = 2 ^ 5" "self_a ?s mod 4 = 1" "odd (self_c ?s)"
    by (simp_all add: Aleat_init_def)
  obtain vs where "fst (Aleat_take 33 ?s) = Inr vs"
    and p: "\<forall>i n. i + n < 33 \<longrightarrow> (vs ! (i + n) = vs ! i \<longleftrightarrow> (2::nat) ^ 5 dvd n)"
    using Aleat_full_period_pow2 [OF h, of 33] by blast
  moreover have "vs ! (0 + 32) = vs ! 0" and "vs ! (3 + 16) \<noteq> vs ! 3"
    using p [rule_format, of 0 32] p [rule_format, of 3 16] by simp_all
  ultimately show ?thesis using h by auto
qed

text \<open>
  C19 (bounds: the defaults). A generator \<open>aleat()\<close> with the default modulus
  \<open>2^48\<close>, multiplier \<open>25214903917\<close> and increment \<open>11\<close> has full period \<open>2^48\<close>
  from any seed: in any number of pulls, two yielded values are equal exactly when the
  number of pulls between them is a multiple of \<open>2^48\<close>.
\<close>

theorem gen_default_full_period:
  "\<exists>vs. fst (gen_run (aleat None None None x0) (replicate N GNext)) = Inr vs \<and>
     (\<forall>i n. i + n < N \<longrightarrow> (vs ! (i + n) = vs ! i \<longleftrightarrow> (2::nat) ^ 48 dvd n))"
proof -
  let ?g = "aleat None None None x0"
  have "fst (gen_run ?g (replicate N GNext)) = Inr (stake N (gen_values ?g))"
    by (rule gen_run_replicate_values) (simp_all add: aleat_def)
  moreover have "gen_values ?g !! (i + n) = gen_values ?g !! i \<longleftrightarrow> (2::nat) ^ 48 dvd n" for i n
    unfolding gen_values_def by (rule lcg_orbit_period_pow2) (simp_all add: aleat_def)
  ultimately show ?thesis by auto
qed

theorem gen_default_full_period_witness:
  "\<exists>vs. fst (gen_run (aleat None None None None) (replicate 2 GNext)) = Inr vs \<and> vs ! 1 \<noteq> vs ! 0"
proof -
  obtain vs where "fst (gen_run (aleat None None None None) (replicate 2 GNext)) = Inr vs"
    and p: "\<forall>i n. i + n < 2 \<longrightarrow> (vs ! (i + n) = vs ! i \<longleftrightarrow> (2::nat) ^ 48 dvd n)"
    using gen_default_full_period [of None 2] by blast
  moreover have "vs ! (0 + 1) \<noteq> vs ! 0"
    using p [rule_format, of 0 1] by simp
  ultimately show ?thesis by auto
qed

text \<open>
  C24 (liveness: every residue is produced). Under the conditions of C18, the first
  \<open>m = 2^k\<close> calls of \<open>next\<close> on the instance return every value of \<open>[0, m)\<close>:
  whatever \<open>y\<close> in that range, it is among them.
\<close>

theorem Aleat_covers_residues_pow2:
  assumes "self_m s = 2 ^ k" and "self_a s mod 4 = 1" and "odd (self_c s)"
    and "0 \<le> y" and "y < self_m s"
  shows "\<exists>vs. fst (Aleat_take (2 ^ k) s) = Inr vs \<and> y \<in> set vs"
proof -
  have "self_m s \<noteq> 0" using assms(1) by simp
  then have "fst (Aleat_take (2 ^ k) s) = Inr (stake (2 ^ k) (Aleat_values s))"
    by (simp add: Aleat_take_def Aleat_run_replicate_values)
  moreover obtain n where "n < 2 ^ k" "Aleat_values s !! n = y"
    using lcg_orbit_covers_pow2 [OF assms] unfolding Aleat_values_def by blast
  ultimately show ?thesis
    by (auto simp: in_set_conv_nth)
qed

theorem Aleat_covers_residues_pow2_witness:
  "self_m (Aleat_init (Some 32) (Some 9) (Some 13) (Some 11)) = 2 ^ 5 \<and>
   self_a (Aleat_init (Some 32) (Some 9) (Some 13) (Some 11)) mod 4 = 1 \<and>
   odd (self_c (Aleat_init (Some 32) (Some 9) (Some 13) (Some 11))) \<and>
   0 \<le> (0::int) \<and> 0 < self_m (Aleat_init (Some 32) (Some 9) (Some 13) (Some 11)) \<and>
   (\<exists>vs. fst (Aleat_take (2 ^ 5) (Aleat_init (Some 32) (Some 9) (Some 13) (Some 11))) = Inr vs \<and>
         0 \<in> set vs)"
proof -
  let ?s = "Aleat_init (Some 32) (Some 9) (Some 13) (Some 11)"
  have h: "self_m ?s = 2 ^ 5" "self_a ?s mod 4 = 1" "odd (self_c ?s)" "0 \<le> (0::int)" "0 < self_m ?s"
    by (simp_all add: Aleat_init_def)
  with Aleat_covers_residues_pow2 [OF h] show ?thesis by simp
qed

text \<open>
  C25 (liveness: the defaults). A generator \<open>aleat()\<close> with the default parameters,
  from any seed, yields every value of \<open>[0, 2^48)\<close> within its first \<open>2^48\<close> pulls.
\<close>

theorem gen_default_covers_residues:
  assumes "0 \<le> y" and "y < 2 ^ 48"
  shows "\<exists>vs. fst (gen_run (aleat None None None x0) (replicate (2 ^ 48) GNext)) = Inr vs \<and> y \<in> set vs"
proof -
  let ?g = "aleat None None None x0"
  have "fst (gen_run ?g (replicate (2 ^ 48) GNext)) = Inr (stake (2 ^ 48) (gen_values ?g))"
    by (rule gen_run_replicate_values) (simp_all add: aleat_def)
  moreover obtain n where "n < 2 ^ 48" "gen_values ?g !! n = y"
    using lcg_orbit_covers_pow2 [of "2 ^ 48" 48 25214903917 11 y "kwarg x0 1212121"] assms
    by (auto simp: gen_values_def aleat_def)
  ultimately show ?thesis
    by (auto simp: in_set_conv_nth)
qed

theorem gen_default_covers_residues_witness:
  "0 \<le> (0::int) \<and> (0::int) < 2 ^ 48 \<and>
   (\<exists>vs. fst (gen_run (aleat None None None None) (replicate (2 ^ 48) GNext)) = Inr vs \<and> 0 \<in> set vs)"
  using gen_default_covers_residues [of 0 None] by simp

end
